theory Spec2Isabelle
  imports Main "HOL-Library.AList" "HOL-Library.Sublist" "HOL-Library.Multiset"
begin

section \<open>Python strings\<close>

text \<open>
  A Python \<open>str\<close> is modelled as a HOL \<open>string\<close>: the list of the bytes of its UTF-8
  encoding, so an ASCII character is one \<open>char\<close> and the dashes, arrows and currency signs
  of the prompts are three.

  \<open>s.strip()\<close> removes the leading and the trailing characters for which \<open>str.isspace\<close>
  holds. \<open>whitespace\<close> lists the encodings of these 29 characters: tab, line feed, vertical
  tab, form feed, carriage return, the separators U+001C to U+001F, the space, U+0085,
  U+00A0, U+1680, U+2000 to U+200A, U+2028, U+2029, U+202F, U+205F and U+3000. No encoding
  of a character is the beginning or the end of the encoding of another, so the first
  character of a text is in the list exactly when the bytes of the text begin with an entry
  of the list, and the last character exactly when they end with one.
  \<open>drop_leading ws s\<close> removes words of \<open>ws\<close> from the front of \<open>s\<close> as long as one is there.

  \<open>s.lower()\<close> is modelled on the ASCII letters: \<open>lower\<close> maps \<open>A\<close> to \<open>Z\<close> to \<open>a\<close> to \<open>z\<close>
  and leaves every other byte alone. The keywords looked for in a lowered text are ASCII,
  and no character outside ASCII lowers to letters that can be part of an occurrence of one
  of them, so the scan of \<open>extract_priority_label\<close> does not depend on how those characters
  are lowered. \<open>needle in text\<close> is \<open>sublist needle text\<close>: the needle is a contiguous part
  of the text.
\<close>

definition whitespace :: "string list" where
  "whitespace =
     [[CHR 0x09], [CHR 0x0A], [CHR 0x0B], [CHR 0x0C], [CHR 0x0D],
      [CHR 0x1C], [CHR 0x1D], [CHR 0x1E], [CHR 0x1F], [CHR 0x20],
      [CHR 0xC2, CHR 0x85], [CHR 0xC2, CHR 0xA0],
      [CHR 0xE1, CHR 0x9A, CHR 0x80],
      [CHR 0xE2, CHR 0x80, CHR 0x80], [CHR 0xE2, CHR 0x80, CHR 0x81],
      [CHR 0xE2, CHR 0x80, CHR 0x82], [CHR 0xE2, CHR 0x80, CHR 0x83],
      [CHR 0xE2, CHR 0x80, CHR 0x84], [CHR 0xE2, CHR 0x80, CHR 0x85],
      [CHR 0xE2, CHR 0x80, CHR 0x86], [CHR 0xE2, CHR 0x80, CHR 0x87],
      [CHR 0xE2, CHR 0x80, CHR 0x88], [CHR 0xE2, CHR 0x80, CHR 0x89],
      [CHR 0xE2, CHR 0x80, CHR 0x8A],
      [CHR 0xE2, CHR 0x80, CHR 0xA8], [CHR 0xE2, CHR 0x80, CHR 0xA9],
      [CHR 0xE2, CHR 0x80, CHR 0xAF],
      [CHR 0xE2, CHR 0x81, CHR 0x9F],
      [CHR 0xE3, CHR 0x80, CHR 0x80]]"

definition leading_len :: "string list \<Rightarrow> string \<Rightarrow> nat" where
  "leading_len ws s =
     (case find (\<lambda>w. w \<noteq> [] \<and> prefix w s) ws of None \<Rightarrow> 0 | Some w \<Rightarrow> length w)"

function drop_leading :: "string list \<Rightarrow> string \<Rightarrow> string" where
  "drop_leading ws s =
     (if leading_len ws s = 0 then s else drop_leading ws (drop (leading_len ws s) s))"
  by pat_completeness auto
termination
proof (relation "measure (\<lambda>(ws, s). length s)")
  show "wf (measure (\<lambda>(ws, s). length s))"
    by simp
next
  fix ws :: "string list" and s :: string
  assume "leading_len ws s \<noteq> 0"
  then obtain w where "find (\<lambda>w. w \<noteq> [] \<and> prefix w s) ws = Some w" and "w \<noteq> []"
    by (auto simp: leading_len_def split: option.splits)
  then have "w \<noteq> [] \<and> prefix w s"
    by (auto simp: find_Some_iff)
  then have "s \<noteq> []"
    by auto
  with \<open>leading_len ws s \<noteq> 0\<close>
  show "((ws, drop (leading_len ws s) s), (ws, s)) \<in> measure (\<lambda>(ws, s). length s)"
    by simp
qed

definition lstrip :: "string \<Rightarrow> string" where
  "lstrip s = drop_leading whitespace s"

definition rstrip :: "string \<Rightarrow> string" where
  "rstrip s = rev (drop_leading (map rev whitespace) (rev s))"

definition strip :: "string \<Rightarrow> string" where
  "strip s = rstrip (lstrip s)"

definition lower_char :: "char \<Rightarrow> char" where
  "lower_char c =
     (let n = (of_char c :: nat) in if 65 \<le> n \<and> n \<le> 90 then char_of (n + 32) else c)"

definition lower :: "string \<Rightarrow> string" where
  "lower s = map lower_char s"

section \<open>The text-generation client\<close>

text \<open>
  \<open>client.chat.completions.create\<close> is the one call that leaves the program. It either
  raises or returns a response with a list of choices, each holding a message whose
  \<open>content\<close> the code reads with \<open>getattr(msg, "content", "")\<close>:
  \<^item> \<open>ContentStr s\<close>: the content is the string \<open>s\<close> (a message with no such attribute
    reads as \<open>ContentStr ''''\<close>);
  \<^item> \<open>ContentParts ts\<close>: the content is a list of parts, \<open>ts\<close> the values of
    \<open>getattr(part, "text", "")\<close> in order;
  \<^item> \<open>ContentNone\<close>: the content is \<open>None\<close>, which \<open>str\<close> turns into the text \<open>None\<close>.

  A response is the list of the contents of its choices. The endpoint is a function of the
  number of calls made before (its answers may differ from call to call) and of the
  request: the model name, the system prompt and the user prompt. The sampling temperature
  is the default 0.3 in every call and is left out. The requests sent so far are kept in a
  log, so that a theorem can say which calls were made.
\<close>

datatype error =
    GroqError string  \<comment> \<open>an exception raised by the client\<close>
  | IndexError        \<comment> \<open>\<open>resp.choices[0]\<close> on an empty list\<close>
  | KeyError string   \<comment> \<open>a dictionary has no such key\<close>

datatype content = ContentStr string | ContentParts "string list" | ContentNone

type_synonym response = "content list"

type_synonym request = "string \<times> string \<times> string"

type_synonym groq_client = "nat \<Rightarrow> request \<Rightarrow> error + response"

type_synonym calls = "request list"

text \<open>Lines 38 to 47 of \<open>call_groq\<close>: from the response to the returned text.\<close>

definition message_text :: "response \<Rightarrow> error + string" where
  "message_text choices =
     (case choices of
        [] \<Rightarrow> Inl IndexError
      | msg # _ \<Rightarrow>
          Inr (strip (case msg of
                        ContentParts parts \<Rightarrow> concat (filter (\<lambda>t. t \<noteq> []) parts)
                      | ContentStr s \<Rightarrow> s
                      | ContentNone \<Rightarrow> ''None'')))"

definition call_groq ::
  "groq_client \<Rightarrow> string \<Rightarrow> string \<Rightarrow> calls \<Rightarrow> (error + string) \<times> calls" where
  "call_groq client system_prompt user_prompt log =
     (let req = (''llama-3.1-8b-instant'', system_prompt, user_prompt) in
      (case client (length log) req of
         Inl e \<Rightarrow> Inl e
       | Inr resp \<Rightarrow> message_text resp,
       log @ [req]))"

section \<open>Agents\<close>

text \<open>
  Each agent fills its two prompts (the local variables \<open>system\<close> and \<open>user\<close> of the source)
  and returns what \<open>call_groq\<close> returns.
\<close>

definition triage_system :: string where
  "triage_system =
     ''You are a precise vehicle insurance triage engine.''"

definition triage_user :: "string \<Rightarrow> string \<Rightarrow> string" where
  "triage_user claim_type description =
     ''\<newline>''
   @ ''You will triage a motor insurance claim.\<newline>''
   @ ''\<newline>''
   @ ''Claim type: ''
   @ claim_type
   @ ''\<newline>''
   @ ''Customer incident description:\<newline>''
   @ ''\"\"\"''
   @ description
   @ ''\"\"\"\<newline>''
   @ ''\<newline>''
   @ ''Tasks:\<newline>''
   @ ''1. Classify:\<newline>''
   @ ''   - severity: one of [\"Low\", \"Medium\", \"High\"]\<newline>''
   @ ''   - priority: one of [\"P1 ''
   @ [CHR 0xE2, CHR 0x80, CHR 0x93]
   @ '' Urgent\", \"P2 ''
   @ [CHR 0xE2, CHR 0x80, CHR 0x93]
   @ '' Standard\", \"P3 ''
   @ [CHR 0xE2, CHR 0x80, CHR 0x93]
   @ '' Low\"]\<newline>''
   @ ''   - expected_cycle_time: short phrase (e.g. \"1''
   @ [CHR 0xE2, CHR 0x80, CHR 0x93]
   @ ''2 days\", \"3''
   @ [CHR 0xE2, CHR 0x80, CHR 0x93]
   @ ''5 days\").\<newline>''
   @ ''\<newline>''
   @ ''2. Explain your reasoning in 2''
   @ [CHR 0xE2, CHR 0x80, CHR 0x93]
   @ ''3 lines, in simple language.\<newline>''
   @ ''\<newline>''
   @ ''Return the answer as concise markdown bullet points.\<newline>''"

definition damage_system :: string where
  "damage_system =
     ''You are an auto damage estimator for Indian private passenger vehicles.''"

definition damage_user :: "string \<Rightarrow> string \<Rightarrow> string \<Rightarrow> bool \<Rightarrow> string" where
  "damage_user claim_type car_model description has_photos =
     ''\<newline>''
   @ ''Estimate likely vehicle damage for this claim.\<newline>''
   @ ''\<newline>''
   @ ''Claim type: ''
   @ claim_type
   @ ''\<newline>''
   @ ''Car make & model (with year if given): ''
   @ car_model
   @ ''\<newline>''
   @ ''Photos attached: ''
   @ (if has_photos then ''Yes'' else ''No'')
   @ ''\<newline>''
   @ ''Customer description:\<newline>''
   @ ''\"\"\"''
   @ description
   @ ''\"\"\"\<newline>''
   @ ''\<newline>''
   @ ''Instructions:\<newline>''
   @ ''- Consider that repair costs vary by segment:\<newline>''
   @ ''  - Entry/budget cars (e.g. Alto, WagonR, Tiago) ''
   @ [CHR 0xE2, CHR 0x86, CHR 0x92]
   @ '' cheaper parts & labour\<newline>''
   @ ''  - Mid-range (e.g. Baleno, i20, City) ''
   @ [CHR 0xE2, CHR 0x86, CHR 0x92]
   @ '' moderate\<newline>''
   @ ''  - Premium/luxury (e.g. BMW, Mercedes, Audi) ''
   @ [CHR 0xE2, CHR 0x86, CHR 0x92]
   @ '' high repair cost\<newline>''
   @ ''- Use this to pick a realistic repair cost band.\<newline>''
   @ ''\<newline>''
   @ ''Return:\<newline>''
   @ ''- likely damaged parts\<newline>''
   @ ''- type of damage (scratches, dents, broken components, glass damage, etc.)\<newline>''
   @ ''- rough repair cost range in INR (e.g. \"''
   @ [CHR 0xE2, CHR 0x82, CHR 0xB9]
   @ ''10,000''
   @ [CHR 0xE2, CHR 0x80, CHR 0x93, CHR 0xE2, CHR 0x82, CHR 0xB9]
   @ ''15,000\")\<newline>''
   @ ''- damage category: one of [\"Minor\", \"Moderate\", \"Severe\"]\<newline>''
   @ ''- short notes (mention if photos would help confirm or refine estimate).\<newline>''
   @ ''\<newline>''
   @ ''Return a short structured markdown answer.\<newline>''"

definition evidence_system :: string where
  "evidence_system =
     ''You are an insurance claims evidence and documentation assistant.''"

definition evidence_user :: "string \<Rightarrow> bool \<Rightarrow> string" where
  "evidence_user description has_photos =
     ''\<newline>''
   @ ''You will help a claims adjuster quickly understand the case and decide what to ask the customer.\<newline>''
   @ ''\<newline>''
   @ ''Customer's description of the accident:\<newline>''
   @ ''\"\"\"''
   @ description
   @ ''\"\"\"\<newline>''
   @ ''\<newline>''
   @ ''Customer has already attached some photos: ''
   @ (if has_photos then ''Yes'' else ''No'')
   @ ''\<newline>''
   @ ''\<newline>''
   @ ''Return:\<newline>''
   @ ''1. A 3''
   @ [CHR 0xE2, CHR 0x80, CHR 0x93]
   @ ''4 line summary suitable for an internal adjuster.\<newline>''
   @ ''2. A bullet list of MOST important missing information / documents to request next, such as:\<newline>''
   @ ''   - more photos (mention which angles if needed)\<newline>''
   @ ''   - police report / FIR / challan\<newline>''
   @ ''   - workshop estimate\<newline>''
   @ ''   - injury details\<newline>''
   @ ''   - any other key info.\<newline>''
   @ ''\<newline>''
   @ ''Return in markdown with headings:\<newline>''
   @ ''- Summary\<newline>''
   @ ''- Missing information / documents\<newline>''"

definition settlement_system :: string where
  "settlement_system =
     ''You are a senior, fair motor insurance claims adjuster in India.''"

definition settlement_user :: "string \<Rightarrow> string \<Rightarrow> string \<Rightarrow> string" where
  "settlement_user claim_type car_model description =
     ''\<newline>''
   @ ''You must suggest an initial settlement approach for this motor claim.\<newline>''
   @ ''\<newline>''
   @ ''Claim type: ''
   @ claim_type
   @ ''\<newline>''
   @ ''Car make & model: ''
   @ car_model
   @ ''\<newline>''
   @ ''Customer description:\<newline>''
   @ ''\"\"\"''
   @ description
   @ ''\"\"\"\<newline>''
   @ ''\<newline>''
   @ ''Assume:\<newline>''
   @ ''- Private car comprehensive policy\<newline>''
   @ ''- Usual deductibles apply\<newline>''
   @ ''- Standard Indian repair market\<newline>''
   @ ''\<newline>''
   @ ''Consider car segment:\<newline>''
   @ ''- For budget cars, typical repairs are cheaper.\<newline>''
   @ ''- For premium/luxury cars, parts & labour are significantly more expensive.\<newline>''
   @ ''\<newline>''
   @ ''Return:\<newline>''
   @ ''- Is this suitable for fast-track / straight-through processing? (yes/no + why)\<newline>''
   @ ''- A reasonable settlement RANGE in INR (e.g. \"''
   @ [CHR 0xE2, CHR 0x82, CHR 0xB9]
   @ ''15,000''
   @ [CHR 0xE2, CHR 0x80, CHR 0x93, CHR 0xE2, CHR 0x82, CHR 0xB9]
   @ ''20,000\")\<newline>''
   @ ''- 2''
   @ [CHR 0xE2, CHR 0x80, CHR 0x93]
   @ ''3 key decision factors you used\<newline>''
   @ ''- Any risks or caveats (e.g. missing documents, unclear liability, potential fraud).\<newline>''
   @ ''\<newline>''
   @ ''Return in clear markdown bullet points, no legal jargon.\<newline>''"

definition triage_agent_groq ::
  "groq_client \<Rightarrow> string \<Rightarrow> string \<Rightarrow> calls \<Rightarrow> (error + string) \<times> calls" where
  "triage_agent_groq client claim_type description log =
     call_groq client triage_system (triage_user claim_type description) log"

definition damage_agent_groq ::
  "groq_client \<Rightarrow> string \<Rightarrow> string \<Rightarrow> string \<Rightarrow> bool \<Rightarrow> calls \<Rightarrow> (error + string) \<times> calls" where
  "damage_agent_groq client claim_type car_model description has_photos log =
     call_groq client damage_system (damage_user claim_type car_model description has_photos) log"

definition evidence_agent_groq ::
  "groq_client \<Rightarrow> string \<Rightarrow> bool \<Rightarrow> calls \<Rightarrow> (error + string) \<times> calls" where
  "evidence_agent_groq client description has_photos log =
     call_groq client evidence_system (evidence_user description has_photos) log"

definition settlement_agent_groq ::
  "groq_client \<Rightarrow> string \<Rightarrow> string \<Rightarrow> string \<Rightarrow> calls \<Rightarrow> (error + string) \<times> calls" where
  "settlement_agent_groq client claim_type car_model description log =
     call_groq client settlement_system (settlement_user claim_type car_model description) log"

section \<open>Pipeline and priority label\<close>

definition extract_priority_label :: "string \<Rightarrow> string" where
  "extract_priority_label triage_md =
     (let txt = lower triage_md in
      if sublist ''high'' txt then ''HIGH''
      else if sublist ''medium'' txt then ''MEDIUM''
      else if sublist ''low'' txt then ''LOW''
      else ''UNSPECIFIED'')"

record overview =
  ov_claim_id :: string
  ov_claim_type :: string
  ov_channel :: string
  ov_car_model :: string
  ov_has_photos :: bool

record pipeline_result =
  pr_overview :: overview
  pr_triage :: string
  pr_damage :: string
  pr_evidence :: string
  pr_settlement :: string

text \<open>
  The four agents run one after the other. An exception of any of them leaves
  \<open>run_claim_pipeline_groq\<close> at once: the later agents are not called and nothing is
  returned.
\<close>

definition run_claim_pipeline_groq ::
  "groq_client \<Rightarrow> string \<Rightarrow> string \<Rightarrow> string \<Rightarrow> string \<Rightarrow> string \<Rightarrow> bool \<Rightarrow> calls
     \<Rightarrow> (error + pipeline_result) \<times> calls" where
  "run_claim_pipeline_groq client claim_id claim_type channel car_model description has_photos log =
     (case triage_agent_groq client claim_type description log of
        (Inl e, log1) \<Rightarrow> (Inl e, log1)
      | (Inr triage, log1) \<Rightarrow>
     (case damage_agent_groq client claim_type car_model description has_photos log1 of
        (Inl e, log2) \<Rightarrow> (Inl e, log2)
      | (Inr damage, log2) \<Rightarrow>
     (case evidence_agent_groq client description has_photos log2 of
        (Inl e, log3) \<Rightarrow> (Inl e, log3)
      | (Inr evidence, log3) \<Rightarrow>
     (case settlement_agent_groq client claim_type car_model description log3 of
        (Inl e, log4) \<Rightarrow> (Inl e, log4)
      | (Inr settlement, log4) \<Rightarrow>
          (Inr \<lparr>pr_overview =
                  \<lparr>ov_claim_id = claim_id, ov_claim_type = claim_type, ov_channel = channel,
                   ov_car_model = car_model, ov_has_photos = has_photos\<rparr>,
                pr_triage = triage, pr_damage = damage, pr_evidence = evidence,
                pr_settlement = settlement\<rparr>,
           log4)))))"

section \<open>Session state and the claim records\<close>

text \<open>
  \<open>st.session_state\<close> holds five values. \<open>claims_db\<close> is a Python dictionary from claim id
  to record: an association list in insertion order, in which \<open>d[k] = v\<close> replaces the value
  of a key that is there and keeps its place, and appends a new key
  (\<open>AList.update\<close>); \<open>del d[k]\<close> removes the key (\<open>AList.delete\<close>) and raises \<open>KeyError\<close>
  when it is missing. The field \<open>c_k\<close> of a record is the key \<open>k\<close> of the source's
  dictionary. \<open>datetime.now()\<close> is an input of the model, the time read when the record is
  stored.
\<close>

type_synonym datetime = nat

record claim_record =
  c_id :: string
  c_customer_name :: string
  c_customer_contact :: string
  c_type :: string
  c_channel :: string
  c_car_model :: string
  c_description :: string
  c_status :: string
  c_priority :: string
  c_triage :: string
  c_damage :: string
  c_evidence :: string
  c_settlement :: string
  c_overview :: overview
  c_created_at :: datetime
  c_created_idx :: int

record session_state =
  claims_db :: "(string \<times> claim_record) list"
  active_claim_id :: "string option"
  next_idx :: int
  customer_msg :: string
  send_status :: string

text \<open>
  \<open>init_state\<close> sets each of the five values that is missing. They are only ever set
  together, so a session either has none of them (\<open>None\<close>, the first run of the script)
  or all of them.
\<close>

definition init_state :: "session_state option \<Rightarrow> session_state" where
  "init_state s =
     (case s of
        None \<Rightarrow> \<lparr>claims_db = [], active_claim_id = None, next_idx = 0,
                  customer_msg = [], send_status = []\<rparr>
      | Some st \<Rightarrow> st)"

definition save_claim_record ::
  "string \<Rightarrow> string \<Rightarrow> string \<Rightarrow> string \<Rightarrow> string \<Rightarrow> string \<Rightarrow> string \<Rightarrow> pipeline_result
     \<Rightarrow> string \<Rightarrow> datetime \<Rightarrow> session_state \<Rightarrow> session_state" where
  "save_claim_record claim_id customer_name customer_contact claim_type channel car_model
       description pipeline_result status now st =
     (let st1 = st\<lparr>next_idx := next_idx st + 1\<rparr>;
          triage_md = pr_triage pipeline_result;
          priority = extract_priority_label triage_md
      in st1\<lparr>claims_db :=
               AList.update claim_id
                 \<lparr>c_id = claim_id,
                  c_customer_name = customer_name,
                  c_customer_contact = customer_contact,
                  c_type = claim_type,
                  c_channel = channel,
                  c_car_model = car_model,
                  c_description = description,
                  c_status = status,
                  c_priority = priority,
                  c_triage = triage_md,
                  c_damage = pr_damage pipeline_result,
                  c_evidence = pr_evidence pipeline_result,
                  c_settlement = pr_settlement pipeline_result,
                  c_overview = pr_overview pipeline_result,
                  c_created_at = now,
                  c_created_idx = next_idx st1\<rparr>
                 (claims_db st1)\<rparr>)"

text \<open>
  \<open>sorted(values, key=created_idx, reverse=True)\<close> is stable also when reversed: records
  with the same key keep the order of the dictionary. That is the stable ascending sort of
  the reversed list, reversed.
\<close>

definition get_sorted_claims :: "session_state \<Rightarrow> claim_record list" where
  "get_sorted_claims st = rev (sort_key c_created_idx (rev (map snd (claims_db st))))"

section \<open>Handlers of the user interface\<close>

text \<open>
  Only what the handlers do to the session state is modelled. A message shown with
  \<open>st.error\<close>, \<open>st.success\<close> or \<open>st.info\<close> is returned as a \<open>notice\<close>; \<open>st.rerun()\<close> ends
  the run of the script and changes nothing.
\<close>

datatype notice = StError string | StSuccess string | StInfo string

text \<open>The two buttons of a card of \<open>render_history\<close>: open (lines 390 to 394) and delete
  (lines 396 to 400).\<close>

definition render_history_open :: "string \<Rightarrow> session_state \<Rightarrow> session_state" where
  "render_history_open cid st = st\<lparr>active_claim_id := Some cid, customer_msg := [], send_status := []\<rparr>"

definition render_history_delete :: "string \<Rightarrow> session_state \<Rightarrow> error + session_state" where
  "render_history_delete cid st =
     (if cid \<in> set (map fst (claims_db st))
      then Inr (st\<lparr>claims_db := AList.delete cid (claims_db st), send_status := [], customer_msg := []\<rparr>)
      else Inl (KeyError cid))"

text \<open>
  The three buttons under the review panel of \<open>render_claim_intelligence\<close>. \<open>claim\<close> is the
  very dictionary stored under \<open>cid\<close>, so \<open>claim["status"] = s\<close> changes the stored record in
  place. The buttons of the evidence tab (the customer message) touch \<open>customer_msg\<close> and
  \<open>send_status\<close> only and are not part of the model.
\<close>

datatype button = SaveAsReviewing | MarkAsCompleted | StartNewClaim

definition set_claim_status :: "string \<Rightarrow> claim_record \<Rightarrow> string \<Rightarrow> session_state \<Rightarrow> session_state" where
  "set_claim_status cid claim status st =
     st\<lparr>claims_db := AList.update cid (claim\<lparr>c_status := status\<rparr>) (claims_db st)\<rparr>"

definition render_claim_intelligence :: "button \<Rightarrow> session_state \<Rightarrow> notice option \<times> session_state" where
  "render_claim_intelligence clicked st =
     (case (case active_claim_id st of
              None \<Rightarrow> None
            | Some cid \<Rightarrow> if cid = [] then None
                          else map_option (Pair cid) (map_of (claims_db st) cid)) of
        None \<Rightarrow>
          (Some (StInfo ''No active claim selected. File a new claim or select one from History.''), st)
      | Some (cid, claim) \<Rightarrow>
          (case clicked of
             SaveAsReviewing \<Rightarrow>
               (Some (StSuccess (''Claim '' @ cid @ '' saved as Reviewing.'')),
                (set_claim_status cid claim ''Reviewing'' st)
                  \<lparr>active_claim_id := None, customer_msg := [], send_status := []\<rparr>)
           | MarkAsCompleted \<Rightarrow>
               (Some (StSuccess (''Claim '' @ cid @ '' marked as Completed.'')),
                (set_claim_status cid claim ''Completed'' st)
                  \<lparr>active_claim_id := None, customer_msg := [], send_status := []\<rparr>)
           | StartNewClaim \<Rightarrow>
               (None, st\<lparr>active_claim_id := None, customer_msg := [], send_status := []\<rparr>)))"

text \<open>
  The form of the workspace tab, as \<open>main\<close> reads it when it was submitted, and the branch
  \<open>if submitted:\<close> of \<open>main\<close> (lines 567 to 596). The result is the notice shown or the
  exception that left \<open>main\<close>, the session state and the log of requests afterwards.
\<close>

record form =
  f_claim_id :: string
  f_customer_name :: string
  f_customer_contact :: string
  f_claim_type :: string
  f_channel :: string
  f_car_model :: string
  f_description :: string
  f_photo :: "string option"

definition main_submitted ::
  "groq_client \<Rightarrow> datetime \<Rightarrow> form \<Rightarrow> session_state \<Rightarrow> calls
     \<Rightarrow> (error + notice) \<times> session_state \<times> calls" where
  "main_submitted client now fm st log =
     (if strip (f_description fm) = [] \<or> strip (f_customer_name fm) = []
      then (Inr (StError ''Please fill at least customer name and description.''), st, log)
      else
        (let photo_present = (f_photo fm \<noteq> None) in
         case run_claim_pipeline_groq client (f_claim_id fm) (f_claim_type fm) (f_channel fm)
                (f_car_model fm) (f_description fm) photo_present log of
           (Inl e, log') \<Rightarrow> (Inl e, st, log')
         | (Inr pipeline_result, log') \<Rightarrow>
             (Inr (StSuccess (''Analysis completed for claim '' @ f_claim_id fm
                                @ ''. Scroll down to view details.'')),
              (save_claim_record (f_claim_id fm) (f_customer_name fm) (f_customer_contact fm)
                 (f_claim_type fm) (f_channel fm) (f_car_model fm) (f_description fm)
                 pipeline_result ''Reviewing'' now st)
                \<lparr>active_claim_id := Some (f_claim_id fm), customer_msg := [], send_status := []\<rparr>,
              log')))"

section \<open>Runs of store operations\<close>

text \<open>
  A session is a sequence of operations on the session state: a record is stored
  (\<open>save_claim_record\<close> with the given arguments), a card is opened or deleted, a button of
  the review panel is pressed. An operation that raises ends its run of the script and
  leaves the session state as it was; the session goes on with the next operation.
  \<open>created\<close> lists, in the order of their creation, the records as they stand in the store
  right after each \<open>Create\<close> of a run.
\<close>

record claim_args =
  a_claim_id :: string
  a_customer_name :: string
  a_customer_contact :: string
  a_claim_type :: string
  a_channel :: string
  a_car_model :: string
  a_description :: string
  a_pipeline_result :: pipeline_result
  a_status :: string
  a_now :: datetime

datatype store_op = Create claim_args | Delete string | Open string | Press button

fun apply_op :: "store_op \<Rightarrow> session_state \<Rightarrow> session_state" where
  "apply_op (Create a) st =
     save_claim_record (a_claim_id a) (a_customer_name a) (a_customer_contact a) (a_claim_type a)
       (a_channel a) (a_car_model a) (a_description a) (a_pipeline_result a) (a_status a)
       (a_now a) st"
| "apply_op (Delete cid) st =
     (case render_history_delete cid st of Inl e \<Rightarrow> st | Inr st' \<Rightarrow> st')"
| "apply_op (Open cid) st = render_history_open cid st"
| "apply_op (Press b) st = snd (render_claim_intelligence b st)"

fun run_ops :: "store_op list \<Rightarrow> session_state \<Rightarrow> session_state" where
  "run_ops [] st = st"
| "run_ops (x # ops) st = run_ops ops (apply_op x st)"

fun created :: "store_op list \<Rightarrow> session_state \<Rightarrow> claim_record list" where
  "created [] st = []"
| "created (Create a # ops) st =
     (case map_of (claims_db (apply_op (Create a) st)) (a_claim_id a) of
        None \<Rightarrow> []
      | Some r \<Rightarrow> [r])
     @ created ops (apply_op (Create a) st)"
| "created (x # ops) st = created ops (apply_op x st)"

fun is_create :: "store_op \<Rightarrow> bool" where
  "is_create (Create a) = True"
| "is_create x = False"

text \<open>
  What holds of the store of every session: the keys of the dictionary are distinct, no
  record has a creation index above the counter, and no two records share one.
\<close>

definition store_ok :: "session_state \<Rightarrow> bool" where
  "store_ok st =
     (distinct (map fst (claims_db st))
      \<and> list_all (\<lambda>r. c_created_idx r \<le> next_idx st) (map snd (claims_db st))
      \<and> distinct (map (c_created_idx \<circ> snd) (claims_db st)))"

section \<open>Stages of a pipeline run\<close>

text \<open>
  Names for what the theorems about \<open>run_claim_pipeline_groq\<close> speak of. The four agents
  are the stages of a run, in the order of their calls. \<open>stage_request\<close> is the request the
  agent of a stage sends, and \<open>stage_reply\<close> is what \<open>call_groq\<close> returns to that agent when
  the stages before it have returned, so that its call is the next one after theirs: the
  exception of the client or of the empty list of choices, or the text of the message.
\<close>

datatype stage = Triage | Damage | Evidence | Settlement

fun stage_index :: "stage \<Rightarrow> nat" where
  "stage_index Triage = 0"
| "stage_index Damage = 1"
| "stage_index Evidence = 2"
| "stage_index Settlement = 3"

fun stage_request :: "stage \<Rightarrow> string \<Rightarrow> string \<Rightarrow> string \<Rightarrow> bool \<Rightarrow> request" where
  "stage_request Triage claim_type car_model description has_photos =
     (''llama-3.1-8b-instant'', triage_system, triage_user claim_type description)"
| "stage_request Damage claim_type car_model description has_photos =
     (''llama-3.1-8b-instant'', damage_system,
      damage_user claim_type car_model description has_photos)"
| "stage_request Evidence claim_type car_model description has_photos =
     (''llama-3.1-8b-instant'', evidence_system, evidence_user description has_photos)"
| "stage_request Settlement claim_type car_model description has_photos =
     (''llama-3.1-8b-instant'', settlement_system,
      settlement_user claim_type car_model description)"

definition stage_reply ::
  "groq_client \<Rightarrow> calls \<Rightarrow> string \<Rightarrow> string \<Rightarrow> string \<Rightarrow> bool \<Rightarrow> stage \<Rightarrow> error + string" where
  "stage_reply client log claim_type car_model description has_photos s =
     (case client (length log + stage_index s)
             (stage_request s claim_type car_model description has_photos) of
        Inl e \<Rightarrow> Inl e
      | Inr resp \<Rightarrow> message_text resp)"

section \<open>Example sessions\<close>

text \<open>
  Concrete inputs at which the theorems below are evaluated: the arguments of a
  \<open>save_claim_record\<close> for a claim id, a triage text and a time; a form; and four endpoints.
\<close>

definition example_args :: "string \<Rightarrow> string \<Rightarrow> datetime \<Rightarrow> claim_args" where
  "example_args cid triage now =
     \<lparr>a_claim_id = cid, a_customer_name = ''Asha Rao'', a_customer_contact = [],
      a_claim_type = ''Collision'', a_channel = ''Web Portal'',
      a_car_model = ''Maruti Suzuki Baleno 2022'',
      a_description = ''Rear-ended at a signal, bumper dented'',
      a_pipeline_result =
        \<lparr>pr_overview =
           \<lparr>ov_claim_id = cid, ov_claim_type = ''Collision'', ov_channel = ''Web Portal'',
            ov_car_model = ''Maruti Suzuki Baleno 2022'', ov_has_photos = False\<rparr>,
         pr_triage = triage, pr_damage = ''- rear bumper: dent'',
         pr_evidence = ''- photos of the rear'', pr_settlement = ''- fast-track: yes''\<rparr>,
      a_status = ''Reviewing'', a_now = now\<rparr>"

definition example_form :: form where
  "example_form =
     \<lparr>f_claim_id = ''CLM-001'', f_customer_name = ''Asha Rao'', f_customer_contact = [],
      f_claim_type = ''Collision'', f_channel = ''Web Portal'',
      f_car_model = ''Maruti Suzuki Baleno 2022'',
      f_description = ''Rear-ended at a signal, bumper dented'', f_photo = None\<rparr>"

text \<open>An endpoint that answers every call with an empty text, one that answers with a
  line of text, and two that answer so but raise at the first and at the second call.\<close>

definition blank_client :: groq_client where
  "blank_client n req = Inr [ContentStr []]"

definition steady_client :: groq_client where
  "steady_client n req = Inr [ContentStr ''- severity: Low'']"

definition first_call_fails :: groq_client where
  "first_call_fails n req =
     (if n = 0 then Inl (GroqError ''connection error'') else Inr [ContentStr ''- severity: Low''])"

definition second_call_fails :: groq_client where
  "second_call_fails n req =
     (if n = 1 then Inl (GroqError ''connection error'') else Inr [ContentStr ''- severity: Low''])"

text \<open>
  A text with whitespace on both sides (a tab and a no-break space before, two spaces, an
  ideographic space and a line feed after), a text of a no-break space and an em space, and
  endpoints that answer with these, with a content of \<open>None\<close> and with a list of parts.
\<close>

definition padded_text :: string where
  "padded_text =
     [CHR 0x09, CHR 0xC2, CHR 0xA0] @ ''- severity: Low  '' @ [CHR 0xE3, CHR 0x80, CHR 0x80, CHR 0x0A]"

definition space_text :: string where
  "space_text = [CHR 0xC2, CHR 0xA0, CHR 0xE2, CHR 0x80, CHR 0x83]"

definition padded_client :: groq_client where
  "padded_client n req = Inr [ContentStr padded_text]"

definition space_client :: groq_client where
  "space_client n req = Inr [ContentStr space_text]"

definition none_client :: groq_client where
  "none_client n req = Inr [ContentNone]"

definition parts_client :: groq_client where
  "parts_client n req = Inr [ContentParts [''  - severity:'', [], '' Low '']]"

text \<open>A session with two stored claims, the first of them open in the review panel.\<close>

definition example_session :: session_state where
  "example_session =
     run_ops [Create (example_args ''CLM-001'' ''High severity'' 10),
              Create (example_args ''CLM-002'' ''Low'' 20),
              Open ''CLM-001''] (init_state None)"

section \<open>The priority label\<close>

text \<open>
  A keyword occurs in the lowered text exactly when the text has a contiguous part that
  lowers to the keyword, that is, when it contains the keyword in some letter case.
\<close>

lemma sublist_lower_iff:
  "sublist kw (lower t) \<longleftrightarrow> (\<exists>ps w ss. t = ps @ w @ ss \<and> lower w = kw)"
proof
  assume "sublist kw (lower t)"
  then obtain ps' ss' where "map lower_char t = ps' @ kw @ ss'"
    by (auto simp: sublist_def lower_def)
  then have "\<exists>ps r. t = ps @ r \<and> kw @ ss' = map lower_char r"
    by (auto simp: map_eq_append_conv)
  then obtain ps r where t: "t = ps @ r" and r: "kw @ ss' = map lower_char r"
    by blast
  from r have "\<exists>w ss. r = w @ ss \<and> kw = map lower_char w"
    by (auto simp: append_eq_map_conv)
  then obtain w ss where "r = w @ ss" and "kw = map lower_char w"
    by blast
  with t show "\<exists>ps w ss. t = ps @ w @ ss \<and> lower w = kw"
    by (auto simp: lower_def)
next
  assume "\<exists>ps w ss. t = ps @ w @ ss \<and> lower w = kw"
  then obtain ps w ss where "t = ps @ w @ ss" and "lower w = kw"
    by blast
  then have "lower t = lower ps @ kw @ lower ss"
    by (simp add: lower_def)
  then show "sublist kw (lower t)"
    unfolding sublist_def by blast
qed

text \<open>
  C3. \<open>extract_priority_label\<close> scans the triage text for the keywords without regard to
  letter case, in the order HIGH, MEDIUM, LOW; the first keyword found decides and a text
  with none of them is UNSPECIFIED. So a text that contains both "high" and "low", in any
  letter case, is HIGH, and a text that contains none of the three keywords is UNSPECIFIED.
\<close>

theorem extract_priority_label_scan:
  "extract_priority_label t =
     (if (\<exists>ps w ss. t = ps @ w @ ss \<and> lower w = ''high'') then ''HIGH''
      else if (\<exists>ps w ss. t = ps @ w @ ss \<and> lower w = ''medium'') then ''MEDIUM''
      else if (\<exists>ps w ss. t = ps @ w @ ss \<and> lower w = ''low'') then ''LOW''
      else ''UNSPECIFIED'')
   \<and> ((\<exists>ps w ss. t = ps @ w @ ss \<and> lower w = ''high'')
        \<and> (\<exists>ps w ss. t = ps @ w @ ss \<and> lower w = ''low'')
        \<longrightarrow> extract_priority_label t = ''HIGH'')
   \<and> (\<not> (\<exists>ps w ss. t = ps @ w @ ss \<and> lower w \<in> {''high'', ''medium'', ''low''})
        \<longrightarrow> extract_priority_label t = ''UNSPECIFIED'')"
  unfolding extract_priority_label_def Let_def sublist_lower_iff by auto

theorem extract_priority_label_scan_witness:
  "(\<exists>ps w ss. ''Not HIGH, rather Low'' = ps @ w @ ss \<and> lower w = ''high'')
   \<and> (\<exists>ps w ss. ''Not HIGH, rather Low'' = ps @ w @ ss \<and> lower w = ''low'')
   \<and> extract_priority_label ''Not HIGH, rather Low'' = ''HIGH''
   \<and> \<not> (\<exists>ps w ss. ''scratch on the door'' = ps @ w @ ss
            \<and> lower w \<in> {''high'', ''medium'', ''low''})
   \<and> extract_priority_label ''scratch on the door'' = ''UNSPECIFIED''"
proof -
  have "''Not HIGH, rather Low'' = ''Not '' @ ''HIGH'' @ '', rather Low''
        \<and> lower ''HIGH'' = ''high''"
    by code_simp
  then have h: "\<exists>ps w ss. ''Not HIGH, rather Low'' = ps @ w @ ss \<and> lower w = ''high''"
    by blast
  have "''Not HIGH, rather Low'' = ''Not HIGH, rather '' @ ''Low'' @ []
        \<and> lower ''Low'' = ''low''"
    by code_simp
  then have l: "\<exists>ps w ss. ''Not HIGH, rather Low'' = ps @ w @ ss \<and> lower w = ''low''"
    by blast
  have "\<not> sublist ''high'' (lower ''scratch on the door'')"
    and "\<not> sublist ''medium'' (lower ''scratch on the door'')"
    and "\<not> sublist ''low'' (lower ''scratch on the door'')"
    by code_simp+
  then have n: "\<not> (\<exists>ps w ss. ''scratch on the door'' = ps @ w @ ss
                     \<and> lower w \<in> {''high'', ''medium'', ''low''})"
    unfolding sublist_lower_iff by blast
  from h l n extract_priority_label_scan [of "''Not HIGH, rather Low''"]
    extract_priority_label_scan [of "''scratch on the door''"]
  show ?thesis by blast
qed

section \<open>Stripping whitespace\<close>

text \<open>
  What \<open>drop_leading\<close> removes is a sequence of words of its list, and what it leaves
  begins with none of them. So \<open>strip\<close> removes whitespace characters at both ends,
  leaves a text that neither begins nor ends with one, and leaves nothing exactly of a text
  of whitespace characters.
\<close>

lemma leading_len_0:
  "leading_len ws s = 0 \<longleftrightarrow> (\<forall>w \<in> set ws. w \<noteq> [] \<longrightarrow> \<not> prefix w s)"
  by (auto simp: leading_len_def find_None_iff find_Some_iff split: option.splits)

lemma leading_len_word:
  assumes "leading_len ws s \<noteq> 0"
  shows "\<exists>w \<in> set ws. w \<noteq> [] \<and> leading_len ws s = length w \<and> s = w @ drop (leading_len ws s) s"
proof -
  from assms obtain w where f: "find (\<lambda>w. w \<noteq> [] \<and> prefix w s) ws = Some w"
    and len: "leading_len ws s = length w"
    by (auto simp: leading_len_def split: option.splits)
  from f have "w \<in> set ws" and "w \<noteq> []" and "prefix w s"
    by (auto simp: find_Some_iff)
  then show ?thesis
    using len by (auto simp: prefix_def)
qed

lemma drop_leading_words:
  "\<exists>us. set us \<subseteq> set ws \<and> s = concat us @ drop_leading ws s"
proof (induction ws s rule: drop_leading.induct)
  case (1 ws s)
  show ?case
  proof (cases "leading_len ws s = 0")
    case True
    then have "set [] \<subseteq> set ws \<and> s = concat [] @ drop_leading ws s"
      by simp
    then show ?thesis by blast
  next
    case False
    from leading_len_word [OF False] obtain w where w: "w \<in> set ws"
      and s: "s = w @ drop (leading_len ws s) s"
      by blast
    from 1 [OF False] obtain us where us: "set us \<subseteq> set ws"
      and rest: "drop (leading_len ws s) s
                   = concat us @ drop_leading ws (drop (leading_len ws s) s)"
      by blast
    have "drop_leading ws s = drop_leading ws (drop (leading_len ws s) s)"
      using False by simp
    with s rest have "s = concat (w # us) @ drop_leading ws s"
      by (metis append.assoc concat.simps(2))
    moreover from w us have "set (w # us) \<subseteq> set ws"
      by simp
    ultimately show ?thesis by blast
  qed
qed

lemma drop_leading_no_prefix:
  "w \<in> set ws \<Longrightarrow> w \<noteq> [] \<Longrightarrow> \<not> prefix w (drop_leading ws s)"
proof (induction ws s rule: drop_leading.induct)
  case (1 ws s)
  show ?case
  proof (cases "leading_len ws s = 0")
    case True
    with 1(2,3) show ?thesis
      by (simp add: leading_len_0)
  next
    case False
    with 1 show ?thesis by simp
  qed
qed

lemma drop_leading_concat:
  assumes free: "\<forall>w \<in> set ws. \<forall>w' \<in> set ws. prefix w w' \<longrightarrow> w = w'"
    and ne: "[] \<notin> set ws"
  shows "set us \<subseteq> set ws \<Longrightarrow> drop_leading ws (concat us @ t) = drop_leading ws t"
proof (induction us)
  case Nil
  then show ?case by simp
next
  case (Cons u us)
  then have u: "u \<in> set ws" and us: "set us \<subseteq> set ws"
    by simp_all
  from u ne have "u \<noteq> []"
    by auto
  let ?s = "concat (u # us) @ t"
  have s: "?s = u @ (concat us @ t)"
    by simp
  from u \<open>u \<noteq> []\<close> have nz: "leading_len ws ?s \<noteq> 0"
    unfolding leading_len_0 s by (metis prefixI)
  from leading_len_word [OF nz] obtain w where w: "w \<in> set ws"
    and len: "leading_len ws ?s = length w" and pre: "prefix w ?s"
    by (metis prefixI)
  from pre have "prefix w u \<or> prefix u w"
    unfolding s by (metis prefix_append prefixI prefix_same_cases)
  with free u w have "w = u"
    by blast
  with len have "drop (leading_len ws ?s) ?s = concat us @ t"
    by simp
  with nz have "drop_leading ws ?s = drop_leading ws (concat us @ t)"
    by (metis drop_leading.simps)
  with Cons.IH [OF us] show ?case
    by simp
qed

lemma whitespace_prefix_free:
  "\<forall>w \<in> set whitespace. \<forall>w' \<in> set whitespace. prefix w w' \<longrightarrow> w = w'"
  by (simp add: whitespace_def)

lemma whitespace_nonempty: "[] \<notin> set whitespace"
  by (simp add: whitespace_def)

lemma strip_Nil: "strip [] = []"
  by (simp add: strip_def lstrip_def rstrip_def leading_len_def whitespace_def)

lemma lstrip_words: "\<exists>us. set us \<subseteq> set whitespace \<and> s = concat us @ lstrip s"
  unfolding lstrip_def by (rule drop_leading_words)

lemma rstrip_words: "\<exists>vs. set vs \<subseteq> set whitespace \<and> s = rstrip s @ concat vs"
proof -
  from drop_leading_words [of "map rev whitespace" "rev s"]
  obtain us where us: "set us \<subseteq> set (map rev whitespace)"
    and s: "rev s = concat us @ drop_leading (map rev whitespace) (rev s)"
    by blast
  from s have "rev (rev s) = rev (concat us @ drop_leading (map rev whitespace) (rev s))"
    by simp
  then have "s = rstrip s @ concat (map rev (rev us))"
    by (simp add: rstrip_def rev_concat)
  moreover from us have "set (map rev (rev us)) \<subseteq> set whitespace"
    by auto
  ultimately show ?thesis by blast
qed

lemma strip_words:
  "\<exists>us vs. set us \<subseteq> set whitespace \<and> set vs \<subseteq> set whitespace
           \<and> s = concat us @ strip s @ concat vs"
proof -
  from lstrip_words [of s] obtain us where "set us \<subseteq> set whitespace"
    and "s = concat us @ lstrip s"
    by blast
  moreover from rstrip_words [of "lstrip s"] obtain vs where "set vs \<subseteq> set whitespace"
    and "lstrip s = strip s @ concat vs"
    unfolding strip_def by blast
  ultimately show ?thesis by metis
qed

lemma strip_no_whitespace:
  assumes "w \<in> set whitespace"
  shows "\<not> prefix w (strip s)" and "\<not> suffix w (strip s)"
proof -
  from assms whitespace_nonempty have ne: "w \<noteq> []"
    by auto
  from rstrip_words [of "lstrip s"] have "prefix (strip s) (lstrip s)"
    unfolding strip_def by (metis prefixI)
  moreover have "\<not> prefix w (lstrip s)"
    unfolding lstrip_def using assms ne by (rule drop_leading_no_prefix)
  ultimately show "\<not> prefix w (strip s)"
    by (metis prefix_order.order_trans)
  have "\<not> prefix (rev w) (drop_leading (map rev whitespace) (rev (lstrip s)))"
    using assms ne by (intro drop_leading_no_prefix) auto
  then show "\<not> suffix w (strip s)"
    by (simp add: strip_def rstrip_def suffix_to_prefix)
qed

lemma strip_empty_iff:
  "strip s = [] \<longleftrightarrow> (\<exists>us. set us \<subseteq> set whitespace \<and> s = concat us)"
proof
  assume "strip s = []"
  with strip_words [of s] obtain us vs where "set us \<subseteq> set whitespace"
    "set vs \<subseteq> set whitespace" "s = concat us @ concat vs"
    by auto
  then have "set (us @ vs) \<subseteq> set whitespace \<and> s = concat (us @ vs)"
    by simp
  then show "\<exists>us. set us \<subseteq> set whitespace \<and> s = concat us"
    by blast
next
  assume "\<exists>us. set us \<subseteq> set whitespace \<and> s = concat us"
  then obtain us where us: "set us \<subseteq> set whitespace" and s: "s = concat us"
    by blast
  from drop_leading_concat [OF whitespace_prefix_free whitespace_nonempty us, of "[]"]
  have "lstrip s = lstrip []"
    by (simp add: lstrip_def s)
  then show "strip s = []"
    using strip_Nil by (simp add: strip_def)
qed

section \<open>The claim record store\<close>

subsection \<open>The dictionary\<close>

lemma set_update_subset: "set (AList.update k v al) \<subseteq> insert (k, v) (set al)"
  by (induction al) auto

lemma update_mem: "(k, v) \<in> set (AList.update k v al)"
  by (induction al) auto

lemma distinct_map_update:
  "distinct (map (f \<circ> snd) al) \<Longrightarrow> f v \<notin> (f \<circ> snd) ` set al \<Longrightarrow>
   distinct (map (f \<circ> snd) (AList.update k v al))"
proof (induction al)
  case Nil
  then show ?case by simp
next
  case (Cons p al)
  have "(f \<circ> snd) ` set (AList.update k v al) \<subseteq> insert (f v) ((f \<circ> snd) ` set al)"
    using set_update_subset [of k v al] by fastforce
  with Cons show ?case by auto
qed

lemma distinct_map_delete:
  "distinct (map g al) \<Longrightarrow> distinct (map g (AList.delete k al))"
  by (simp add: AList.delete_eq distinct_map_filter)

lemma save_claim_record_fields:
  "claims_db (save_claim_record cid nm ct ty ch cm d pr s now st) =
     AList.update cid
       \<lparr>c_id = cid, c_customer_name = nm, c_customer_contact = ct, c_type = ty, c_channel = ch,
        c_car_model = cm, c_description = d, c_status = s,
        c_priority = extract_priority_label (pr_triage pr), c_triage = pr_triage pr,
        c_damage = pr_damage pr, c_evidence = pr_evidence pr, c_settlement = pr_settlement pr,
        c_overview = pr_overview pr, c_created_at = now, c_created_idx = next_idx st + 1\<rparr>
       (claims_db st)"
  "next_idx (save_claim_record cid nm ct ty ch cm d pr s now st) = next_idx st + 1"
  "active_claim_id (save_claim_record cid nm ct ty ch cm d pr s now st) = active_claim_id st"
  "customer_msg (save_claim_record cid nm ct ty ch cm d pr s now st) = customer_msg st"
  "send_status (save_claim_record cid nm ct ty ch cm d pr s now st) = send_status st"
  by (simp_all add: save_claim_record_def Let_def)

subsection \<open>The invariant of the store\<close>

lemma apply_op_next_idx: "next_idx st \<le> next_idx (apply_op x st)"
proof (cases x)
  case (Create a)
  then show ?thesis by (simp add: save_claim_record_fields)
next
  case (Delete cid)
  then show ?thesis by (simp add: render_history_delete_def)
next
  case (Open cid)
  then show ?thesis by (simp add: render_history_open_def)
next
  case (Press b)
  then show ?thesis
    by (cases b)
       (auto simp: render_claim_intelligence_def set_claim_status_def
             split: option.splits if_splits)
qed

lemma store_ok_save:
  assumes "store_ok st"
  shows "store_ok (save_claim_record cid nm ct ty ch cm d pr s now st)"
proof -
  let ?r = "\<lparr>c_id = cid, c_customer_name = nm, c_customer_contact = ct, c_type = ty,
        c_channel = ch, c_car_model = cm, c_description = d, c_status = s,
        c_priority = extract_priority_label (pr_triage pr), c_triage = pr_triage pr,
        c_damage = pr_damage pr, c_evidence = pr_evidence pr, c_settlement = pr_settlement pr,
        c_overview = pr_overview pr, c_created_at = now, c_created_idx = next_idx st + 1\<rparr>"
  from assms have keys: "distinct (map fst (claims_db st))"
    and le: "\<forall>p \<in> set (claims_db st). c_created_idx (snd p) \<le> next_idx st"
    and idx: "distinct (map (c_created_idx \<circ> snd) (claims_db st))"
    by (auto simp: store_ok_def list_all_iff)
  from le have fresh: "c_created_idx ?r \<notin> (c_created_idx \<circ> snd) ` set (claims_db st)"
    by fastforce
  have "distinct (map fst (AList.update cid ?r (claims_db st)))"
    using keys by (rule distinct_update)
  moreover have "\<forall>p \<in> set (AList.update cid ?r (claims_db st)).
                   c_created_idx (snd p) \<le> next_idx st + 1"
    using le set_update_subset [of cid ?r "claims_db st"] by fastforce
  moreover have "distinct (map (c_created_idx \<circ> snd) (AList.update cid ?r (claims_db st)))"
    using idx fresh by (rule distinct_map_update)
  ultimately show ?thesis
    by (simp add: store_ok_def list_all_iff save_claim_record_fields)
qed

lemma store_ok_iff:
  "store_ok st \<longleftrightarrow>
     distinct (map fst (claims_db st))
     \<and> (\<forall>i \<in> set (map (c_created_idx \<circ> snd) (claims_db st)). i \<le> next_idx st)
     \<and> distinct (map (c_created_idx \<circ> snd) (claims_db st))"
  by (auto simp: store_ok_def list_all_iff)

lemma update_status_idx:
  "map_of al cid = Some claim \<Longrightarrow>
   map (c_created_idx \<circ> snd) (AList.update cid (claim\<lparr>c_status := s\<rparr>) al)
     = map (c_created_idx \<circ> snd) al"
  by (induction al) (auto split: if_splits)

lemma update_present_keys:
  "map_of al cid = Some claim \<Longrightarrow> map fst (AList.update cid v al) = map fst al"
  by (induction al) (auto split: if_splits)

lemma store_ok_status:
  assumes "store_ok st" and "map_of (claims_db st) cid = Some claim"
  shows "store_ok (set_claim_status cid claim s st)"
  using assms
  by (simp add: store_ok_iff set_claim_status_def update_status_idx update_present_keys
           del: set_map)

lemma store_ok_delete:
  assumes "store_ok st"
  shows "store_ok (st\<lparr>claims_db := AList.delete cid (claims_db st), send_status := [],
                     customer_msg := []\<rparr>)"
proof -
  have "set (AList.delete cid (claims_db st)) \<subseteq> set (claims_db st)"
    by (auto simp: AList.delete_eq)
  with assms show ?thesis
    by (auto simp: store_ok_iff distinct_map_delete)
qed

lemma store_ok_apply_op:
  assumes "store_ok st"
  shows "store_ok (apply_op x st)"
proof (cases x)
  case (Create a)
  with assms show ?thesis by (simp add: store_ok_save)
next
  case (Delete cid)
  with assms store_ok_delete [OF assms, of cid] show ?thesis
    by (simp add: render_history_delete_def)
next
  case (Open cid)
  with assms show ?thesis by (simp add: render_history_open_def store_ok_iff)
next
  case (Press b)
  have frame: "store_ok (s\<lparr>active_claim_id := None, customer_msg := [], send_status := []\<rparr>)"
    if "store_ok s" for s
    using that by (simp add: store_ok_iff)
  show ?thesis
  proof (cases "case active_claim_id st of None \<Rightarrow> None
                | Some cid \<Rightarrow> if cid = [] then None
                              else map_option (Pair cid) (map_of (claims_db st) cid)")
    case None
    with Press assms show ?thesis by (simp add: render_claim_intelligence_def)
  next
    case (Some p)
    obtain cid claim where p: "p = (cid, claim)" by (cases p)
    with Some have "map_of (claims_db st) cid = Some claim"
      by (auto split: option.splits if_splits)
    with assms have "store_ok (set_claim_status cid claim s st)" for s
      by (rule store_ok_status)
    with Press Some p assms show ?thesis
      by (cases b) (simp_all add: render_claim_intelligence_def frame)
  qed
qed

lemma store_ok_run_ops: "store_ok st \<Longrightarrow> store_ok (run_ops ops st)"
  by (induction ops arbitrary: st) (simp_all add: store_ok_apply_op)

lemma store_ok_init_state: "store_ok (init_state None)"
  by (simp add: store_ok_def init_state_def)

subsection \<open>Creation indices along a run\<close>

lemma created_Create:
  "created (Create a # ops) st =
     \<lparr>c_id = a_claim_id a, c_customer_name = a_customer_name a,
      c_customer_contact = a_customer_contact a, c_type = a_claim_type a,
      c_channel = a_channel a, c_car_model = a_car_model a, c_description = a_description a,
      c_status = a_status a,
      c_priority = extract_priority_label (pr_triage (a_pipeline_result a)),
      c_triage = pr_triage (a_pipeline_result a), c_damage = pr_damage (a_pipeline_result a),
      c_evidence = pr_evidence (a_pipeline_result a),
      c_settlement = pr_settlement (a_pipeline_result a),
      c_overview = pr_overview (a_pipeline_result a), c_created_at = a_now a,
      c_created_idx = next_idx st + 1\<rparr>
     # created ops (apply_op (Create a) st)"
  by (simp add: save_claim_record_fields update_conv')

lemma created_above_counter:
  "r \<in> set (created ops st) \<Longrightarrow> next_idx st < c_created_idx r"
proof (induction ops arbitrary: st)
  case Nil
  then show ?case by simp
next
  case (Cons x ops)
  show ?case
  proof (cases x)
    case (Create a)
    from Cons.prems consider "c_created_idx r = next_idx st + 1"
      | "r \<in> set (created ops (apply_op (Create a) st))"
      unfolding Create created_Create by auto
    then show ?thesis
    proof cases
      case 1
      then show ?thesis by simp
    next
      case 2
      then have "next_idx (apply_op (Create a) st) < c_created_idx r"
        by (rule Cons.IH)
      then show ?thesis by (simp add: save_claim_record_fields)
    qed
  next
    case (Delete cid)
    with Cons.prems have "r \<in> set (created ops (apply_op x st))" by simp
    then have "next_idx (apply_op x st) < c_created_idx r" by (rule Cons.IH)
    with apply_op_next_idx [of st x] show ?thesis by simp
  next
    case (Open cid)
    with Cons.prems have "r \<in> set (created ops (apply_op x st))" by simp
    then have "next_idx (apply_op x st) < c_created_idx r" by (rule Cons.IH)
    with apply_op_next_idx [of st x] show ?thesis by simp
  next
    case (Press b)
    with Cons.prems have "r \<in> set (created ops (apply_op x st))" by simp
    then have "next_idx (apply_op x st) < c_created_idx r" by (rule Cons.IH)
    with apply_op_next_idx [of st x] show ?thesis by simp
  qed
qed

lemma created_increasing: "sorted_wrt (<) (map c_created_idx (created ops st))"
proof (induction ops arbitrary: st)
  case Nil
  then show ?case by simp
next
  case (Cons x ops)
  show ?case
  proof (cases x)
    case (Create a)
    have "next_idx st + 1 < c_created_idx r"
      if "r \<in> set (created ops (apply_op (Create a) st))" for r
      using created_above_counter [OF that] by (simp add: save_claim_record_fields)
    with Cons.IH [of "apply_op (Create a) st"] show ?thesis
      unfolding Create created_Create by auto
  qed (use Cons.IH in simp_all)
qed

lemma length_created: "length (created ops st) = length (filter is_create ops)"
proof (induction ops arbitrary: st)
  case Nil
  then show ?case by simp
next
  case (Cons x ops)
  then show ?case
    by (cases x) (simp_all add: created_Create del: created.simps(2))
qed

text \<open>
  C5. The creation index assigned by \<open>save_claim_record\<close> strictly increases with each new
  record and is never used again, also across deletions: in every run of operations from a
  store that satisfies the invariant, the indices of the records created, in the order of
  their creation, are strictly increasing (one for each create), each is above the counter
  at the start and above the index of every record stored then, and the records in the
  store at the end have pairwise different indices.
\<close>

theorem created_idx_strictly_increasing:
  "store_ok st \<Longrightarrow>
     sorted_wrt (<) (map c_created_idx (created ops st))
   \<and> length (created ops st) = length (filter is_create ops)
   \<and> (\<forall>r \<in> set (created ops st).
          next_idx st < c_created_idx r
        \<and> (\<forall>p \<in> set (claims_db st). c_created_idx (snd p) < c_created_idx r))
   \<and> distinct (map (c_created_idx \<circ> snd) (claims_db (run_ops ops st)))"
proof (intro conjI ballI)
  assume ok: "store_ok st"
  show "sorted_wrt (<) (map c_created_idx (created ops st))"
    by (rule created_increasing)
  show "length (created ops st) = length (filter is_create ops)"
    by (rule length_created)
  show "distinct (map (c_created_idx \<circ> snd) (claims_db (run_ops ops st)))"
    using store_ok_run_ops [OF ok, of ops] by (simp add: store_ok_iff)
  fix r assume r: "r \<in> set (created ops st)"
  then show above: "next_idx st < c_created_idx r"
    by (rule created_above_counter)
  fix p assume "p \<in> set (claims_db st)"
  with ok have "c_created_idx (snd p) \<le> next_idx st"
    by (simp add: store_ok_iff)
  with above show "c_created_idx (snd p) < c_created_idx r"
    by simp
qed

theorem created_idx_strictly_increasing_witness:
  "store_ok (init_state None)
   \<and> map c_created_idx
          (created [Create (example_args ''CLM-001'' ''Low'' 10),
                    Create (example_args ''CLM-002'' ''High'' 20),
                    Delete ''CLM-002'',
                    Create (example_args ''CLM-002'' ''Medium'' 30)] (init_state None))
        = [1, 2, 3]
   \<and> sorted_wrt (<) (map c_created_idx
          (created [Create (example_args ''CLM-001'' ''Low'' 10),
                    Create (example_args ''CLM-002'' ''High'' 20),
                    Delete ''CLM-002'',
                    Create (example_args ''CLM-002'' ''Medium'' 30)] (init_state None)))"
proof -
  note ok = store_ok_init_state
  have run: "map c_created_idx
          (created [Create (example_args ''CLM-001'' ''Low'' 10),
                    Create (example_args ''CLM-002'' ''High'' 20),
                    Delete ''CLM-002'',
                    Create (example_args ''CLM-002'' ''Medium'' 30)] (init_state None))
        = [1, 2, 3]"
    by (simp add: created_Create save_claim_record_fields init_state_def
          render_history_delete_def example_args_def del: created.simps(2))
  from created_idx_strictly_increasing [OF ok] ok run show ?thesis
    by blast
qed

section \<open>The pipeline\<close>

text \<open>
  A run of the pipeline is decided by the replies of its four stages, in their order.
\<close>

lemma concat_nonempty: "concat (filter (\<lambda>t. t \<noteq> []) ps) = concat ps"
  by (induction ps) simp_all

lemma agent_calls:
  "triage_agent_groq client ct d log =
     (stage_reply client log ct cm d hp Triage, log @ [stage_request Triage ct cm d hp])"
  "damage_agent_groq client ct cm d hp (log @ [q1]) =
     (stage_reply client log ct cm d hp Damage, log @ [q1, stage_request Damage ct cm d hp])"
  "evidence_agent_groq client d hp (log @ [q1, q2]) =
     (stage_reply client log ct cm d hp Evidence,
      log @ [q1, q2, stage_request Evidence ct cm d hp])"
  "settlement_agent_groq client ct cm d (log @ [q1, q2, q3]) =
     (stage_reply client log ct cm d hp Settlement,
      log @ [q1, q2, q3, stage_request Settlement ct cm d hp])"
  by (simp_all add: triage_agent_groq_def damage_agent_groq_def evidence_agent_groq_def
        settlement_agent_groq_def call_groq_def stage_reply_def Let_def eval_nat_numeral)

lemma run_claim_pipeline_groq_stages:
  "run_claim_pipeline_groq client cid ct ch cm d hp log =
     (case stage_reply client log ct cm d hp Triage of
        Inl e \<Rightarrow> (Inl e, log @ map (\<lambda>s. stage_request s ct cm d hp) [Triage])
      | Inr triage \<Rightarrow>
     (case stage_reply client log ct cm d hp Damage of
        Inl e \<Rightarrow> (Inl e, log @ map (\<lambda>s. stage_request s ct cm d hp) [Triage, Damage])
      | Inr damage \<Rightarrow>
     (case stage_reply client log ct cm d hp Evidence of
        Inl e \<Rightarrow> (Inl e, log @ map (\<lambda>s. stage_request s ct cm d hp) [Triage, Damage, Evidence])
      | Inr evidence \<Rightarrow>
     (case stage_reply client log ct cm d hp Settlement of
        Inl e \<Rightarrow>
          (Inl e, log @ map (\<lambda>s. stage_request s ct cm d hp) [Triage, Damage, Evidence, Settlement])
      | Inr settlement \<Rightarrow>
          (Inr \<lparr>pr_overview =
                  \<lparr>ov_claim_id = cid, ov_claim_type = ct, ov_channel = ch,
                   ov_car_model = cm, ov_has_photos = hp\<rparr>,
                pr_triage = triage, pr_damage = damage, pr_evidence = evidence,
                pr_settlement = settlement\<rparr>,
           log @ map (\<lambda>s. stage_request s ct cm d hp) [Triage, Damage, Evidence, Settlement])))))"
  unfolding run_claim_pipeline_groq_def
  by (simp add: agent_calls [where ct = ct and cm = cm and hp = hp] split: sum.splits del: stage_request.simps)

lemma stage_cases: "(\<forall>s. P s) \<longleftrightarrow> P Triage \<and> P Damage \<and> P Evidence \<and> P Settlement"
  by (metis stage.exhaust)

lemma stage_ex: "(\<exists>s. P s) \<longleftrightarrow> P Triage \<or> P Damage \<or> P Evidence \<or> P Settlement"
  by (metis stage.exhaust)

lemma stage_reply_message:
  "client (length log + stage_index s) (stage_request s ct cm d hp) = Inr (c # rest) \<Longrightarrow>
   stage_reply client log ct cm d hp s =
     Inr (strip (case c of ContentStr m \<Rightarrow> m | ContentParts ps \<Rightarrow> concat ps
                        | ContentNone \<Rightarrow> ''None''))"
  by (cases c) (simp_all add: stage_reply_def message_text_def concat_nonempty)

lemma stage_reply_error:
  "stage_reply client log ct cm d hp s = Inl e \<Longrightarrow>
   client (length log + stage_index s) (stage_request s ct cm d hp) = Inl e
   \<or> client (length log + stage_index s) (stage_request s ct cm d hp) = Inr [] \<and> e = IndexError"
  by (auto simp: stage_reply_def message_text_def split: sum.splits list.splits)

lemma steady_text: "strip ''- severity: Low'' = ''- severity: Low''"
  by code_simp

text \<open>
  C1. For every claim input, \<open>run_claim_pipeline_groq\<close> either returns a result whose four
  text fields are the texts \<open>call_groq\<close> returned for the four stages, or raises the
  exception of a stage; it returns a result whenever all four stages return a text. The
  text of a stage is the content of the first message (the string, the parts of a list
  joined, or the text \<open>None\<close> for the content \<open>None\<close>) without its leading and trailing
  whitespace characters: what is removed are whitespace characters, and what is left neither
  begins nor ends with one. So the text of a stage is empty exactly when the content
  consists of whitespace characters only, as the empty content does: such a reply is returned
  as the empty string for that stage and is not turned into a failure.
\<close>

theorem run_claim_pipeline_groq_texts:
  "(case fst (run_claim_pipeline_groq client cid ct ch cm d hp log) of
      Inr r \<Rightarrow>
        stage_reply client log ct cm d hp Triage = Inr (pr_triage r)
        \<and> stage_reply client log ct cm d hp Damage = Inr (pr_damage r)
        \<and> stage_reply client log ct cm d hp Evidence = Inr (pr_evidence r)
        \<and> stage_reply client log ct cm d hp Settlement = Inr (pr_settlement r)
    | Inl e \<Rightarrow> \<exists>s. stage_reply client log ct cm d hp s = Inl e)
   \<and> ((\<forall>s. \<exists>t. stage_reply client log ct cm d hp s = Inr t)
        \<longrightarrow> (\<exists>r. fst (run_claim_pipeline_groq client cid ct ch cm d hp log) = Inr r))
   \<and> (client (length log + stage_index s) (stage_request s ct cm d hp) = Inr (c # rest)
        \<longrightarrow> stage_reply client log ct cm d hp s =
              Inr (strip (case c of ContentStr m \<Rightarrow> m | ContentParts ps \<Rightarrow> concat ps
                                 | ContentNone \<Rightarrow> ''None'')))
   \<and> strip ''None'' = ''None''
   \<and> (\<exists>us vs. set us \<subseteq> set whitespace \<and> set vs \<subseteq> set whitespace
          \<and> msg = concat us @ strip msg @ concat vs)
   \<and> (\<forall>w \<in> set whitespace. \<not> prefix w (strip msg) \<and> \<not> suffix w (strip msg))
   \<and> (strip msg = [] \<longleftrightarrow> (\<exists>us. set us \<subseteq> set whitespace \<and> msg = concat us))"
proof (intro conjI impI ballI)
  show "case fst (run_claim_pipeline_groq client cid ct ch cm d hp log) of
      Inr r \<Rightarrow>
        stage_reply client log ct cm d hp Triage = Inr (pr_triage r)
        \<and> stage_reply client log ct cm d hp Damage = Inr (pr_damage r)
        \<and> stage_reply client log ct cm d hp Evidence = Inr (pr_evidence r)
        \<and> stage_reply client log ct cm d hp Settlement = Inr (pr_settlement r)
    | Inl e \<Rightarrow> \<exists>s. stage_reply client log ct cm d hp s = Inl e"
    unfolding run_claim_pipeline_groq_stages stage_ex
    by (simp split: sum.splits)
next
  assume "\<forall>s. \<exists>t. stage_reply client log ct cm d hp s = Inr t"
  then show "\<exists>r. fst (run_claim_pipeline_groq client cid ct ch cm d hp log) = Inr r"
    unfolding run_claim_pipeline_groq_stages stage_cases
    by (auto split: sum.splits)
next
  assume "client (length log + stage_index s) (stage_request s ct cm d hp) = Inr (c # rest)"
  then show "stage_reply client log ct cm d hp s =
      Inr (strip (case c of ContentStr m \<Rightarrow> m | ContentParts ps \<Rightarrow> concat ps
                         | ContentNone \<Rightarrow> ''None''))"
    by (rule stage_reply_message)
next
  show "strip ''None'' = ''None''"
    by code_simp
next
  show "\<exists>us vs. set us \<subseteq> set whitespace \<and> set vs \<subseteq> set whitespace
          \<and> msg = concat us @ strip msg @ concat vs"
    by (rule strip_words)
next
  fix w assume "w \<in> set whitespace"
  then show "\<not> prefix w (strip msg)" and "\<not> suffix w (strip msg)"
    by (rule strip_no_whitespace)+
next
  show "strip msg = [] \<longleftrightarrow> (\<exists>us. set us \<subseteq> set whitespace \<and> msg = concat us)"
    by (rule strip_empty_iff)
qed

theorem run_claim_pipeline_groq_texts_witness:
  "(\<forall>s. \<exists>t. stage_reply padded_client [] ''Collision'' ''Maruti Suzuki Baleno 2022''
              ''Rear-ended at a signal, bumper dented'' False s = Inr t)
   \<and> fst (run_claim_pipeline_groq padded_client ''CLM-001'' ''Collision'' ''Web Portal''
            ''Maruti Suzuki Baleno 2022'' ''Rear-ended at a signal, bumper dented'' False [])
       = Inr \<lparr>pr_overview =
                \<lparr>ov_claim_id = ''CLM-001'', ov_claim_type = ''Collision'',
                 ov_channel = ''Web Portal'', ov_car_model = ''Maruti Suzuki Baleno 2022'',
                 ov_has_photos = False\<rparr>,
              pr_triage = ''- severity: Low'', pr_damage = ''- severity: Low'',
              pr_evidence = ''- severity: Low'', pr_settlement = ''- severity: Low''\<rparr>
   \<and> space_client (length ([] :: calls) + stage_index Triage)
        (stage_request Triage ''Collision'' ''Maruti Suzuki Baleno 2022''
           ''Rear-ended at a signal, bumper dented'' False)
       = Inr (ContentStr space_text # [])
   \<and> stage_reply space_client [] ''Collision'' ''Maruti Suzuki Baleno 2022''
        ''Rear-ended at a signal, bumper dented'' False Triage = Inr []
   \<and> none_client (length ([] :: calls) + stage_index Damage)
        (stage_request Damage ''Collision'' ''Maruti Suzuki Baleno 2022''
           ''Rear-ended at a signal, bumper dented'' False)
       = Inr (ContentNone # [])
   \<and> stage_reply none_client [] ''Collision'' ''Maruti Suzuki Baleno 2022''
        ''Rear-ended at a signal, bumper dented'' False Damage = Inr ''None''
   \<and> parts_client (length ([] :: calls) + stage_index Evidence)
        (stage_request Evidence ''Collision'' ''Maruti Suzuki Baleno 2022''
           ''Rear-ended at a signal, bumper dented'' False)
       = Inr (ContentParts [''  - severity:'', [], '' Low ''] # [])
   \<and> stage_reply parts_client [] ''Collision'' ''Maruti Suzuki Baleno 2022''
        ''Rear-ended at a signal, bumper dented'' False Evidence = Inr ''- severity: Low''
   \<and> '' '' \<in> set whitespace
   \<and> \<not> prefix '' '' (strip padded_text) \<and> \<not> suffix '' '' (strip padded_text)
   \<and> space_text = concat [[CHR 0xC2, CHR 0xA0], [CHR 0xE2, CHR 0x80, CHR 0x83]]
   \<and> set [[CHR 0xC2, CHR 0xA0], [CHR 0xE2, CHR 0x80, CHR 0x83]] \<subseteq> set whitespace
   \<and> strip space_text = []"
proof -
  note th = run_claim_pipeline_groq_texts
    [where cid = "''CLM-001''" and ct = "''Collision''"
       and ch = "''Web Portal''" and cm = "''Maruti Suzuki Baleno 2022''"
       and d = "''Rear-ended at a signal, bumper dented''" and hp = False and log = "[]"]
  have padded: "strip padded_text = ''- severity: Low''"
    unfolding padded_text_def by code_simp
  have joined: "strip (concat [''  - severity:'', [], '' Low '']) = ''- severity: Low''"
    by code_simp
  have space: "space_text = concat [[CHR 0xC2, CHR 0xA0], [CHR 0xE2, CHR 0x80, CHR 0x83]]"
    and words: "set [[CHR 0xC2, CHR 0xA0], [CHR 0xE2, CHR 0x80, CHR 0x83]] \<subseteq> set whitespace"
    and blank: "'' '' \<in> set whitespace"
    by (simp_all add: space_text_def whitespace_def)
  \<comment> \<open>the endpoint that pads its answers\<close>
  have c1: "padded_client (length ([] :: calls) + stage_index s)
        (stage_request s ''Collision'' ''Maruti Suzuki Baleno 2022''
           ''Rear-ended at a signal, bumper dented'' False)
       = Inr (ContentStr padded_text # [])" for s
    by (simp add: padded_client_def)
  have replies: "stage_reply padded_client [] ''Collision'' ''Maruti Suzuki Baleno 2022''
              ''Rear-ended at a signal, bumper dented'' False s = Inr ''- severity: Low''" for s
    using th [where client = padded_client and s = s and c = "ContentStr padded_text"
                and rest = "[]"] c1 [of s]
    by (simp add: padded)
  then have all: "\<forall>s. \<exists>t. stage_reply padded_client [] ''Collision''
              ''Maruti Suzuki Baleno 2022'' ''Rear-ended at a signal, bumper dented'' False s
              = Inr t"
    by blast
  with th [where client = padded_client] obtain r where r:
    "fst (run_claim_pipeline_groq padded_client ''CLM-001'' ''Collision'' ''Web Portal''
            ''Maruti Suzuki Baleno 2022'' ''Rear-ended at a signal, bumper dented'' False [])
       = Inr r"
    by blast
  have eqs: "stage_reply padded_client [] ''Collision'' ''Maruti Suzuki Baleno 2022''
                ''Rear-ended at a signal, bumper dented'' False Triage = Inr (pr_triage r)
      \<and> stage_reply padded_client [] ''Collision'' ''Maruti Suzuki Baleno 2022''
                ''Rear-ended at a signal, bumper dented'' False Damage = Inr (pr_damage r)
      \<and> stage_reply padded_client [] ''Collision'' ''Maruti Suzuki Baleno 2022''
                ''Rear-ended at a signal, bumper dented'' False Evidence = Inr (pr_evidence r)
      \<and> stage_reply padded_client [] ''Collision'' ''Maruti Suzuki Baleno 2022''
                ''Rear-ended at a signal, bumper dented'' False Settlement
            = Inr (pr_settlement r)"
    using th [where client = padded_client, THEN conjunct1] unfolding r
    by (simp only: sum.case)
  have "pr_triage r = ''- severity: Low'' \<and> pr_damage r = ''- severity: Low''
      \<and> pr_evidence r = ''- severity: Low'' \<and> pr_settlement r = ''- severity: Low''"
    using eqs unfolding replies sum.inject by (elim conjE) (intro conjI; erule sym)
  moreover from r have "pr_overview r =
      \<lparr>ov_claim_id = ''CLM-001'', ov_claim_type = ''Collision'',
       ov_channel = ''Web Portal'', ov_car_model = ''Maruti Suzuki Baleno 2022'',
       ov_has_photos = False\<rparr>"
    by (auto simp: run_claim_pipeline_groq_stages replies simp del: stage_request.simps)
  ultimately have result:
    "fst (run_claim_pipeline_groq padded_client ''CLM-001'' ''Collision'' ''Web Portal''
            ''Maruti Suzuki Baleno 2022'' ''Rear-ended at a signal, bumper dented'' False [])
       = Inr \<lparr>pr_overview =
                \<lparr>ov_claim_id = ''CLM-001'', ov_claim_type = ''Collision'',
                 ov_channel = ''Web Portal'', ov_car_model = ''Maruti Suzuki Baleno 2022'',
                 ov_has_photos = False\<rparr>,
              pr_triage = ''- severity: Low'', pr_damage = ''- severity: Low'',
              pr_evidence = ''- severity: Low'', pr_settlement = ''- severity: Low''\<rparr>"
    using r by (cases r) simp
  \<comment> \<open>a text of whitespace characters\<close>
  from th [where msg = space_text and client = blank_client] space words
  have empty: "strip space_text = []"
    by blast
  have c2: "space_client (length ([] :: calls) + stage_index Triage)
        (stage_request Triage ''Collision'' ''Maruti Suzuki Baleno 2022''
           ''Rear-ended at a signal, bumper dented'' False)
       = Inr (ContentStr space_text # [])"
    by (simp add: space_client_def)
  with th [where client = space_client and s = Triage and c = "ContentStr space_text"
             and rest = "[]"]
  have r2: "stage_reply space_client [] ''Collision'' ''Maruti Suzuki Baleno 2022''
        ''Rear-ended at a signal, bumper dented'' False Triage = Inr []"
    by (simp add: empty)
  \<comment> \<open>the content \<open>None\<close> and a list of parts\<close>
  have c3: "none_client (length ([] :: calls) + stage_index Damage)
        (stage_request Damage ''Collision'' ''Maruti Suzuki Baleno 2022''
           ''Rear-ended at a signal, bumper dented'' False)
       = Inr (ContentNone # [])"
    by (simp add: none_client_def)
  with th [where client = none_client and s = Damage and c = ContentNone and rest = "[]"]
  have r3: "stage_reply none_client [] ''Collision'' ''Maruti Suzuki Baleno 2022''
        ''Rear-ended at a signal, bumper dented'' False Damage = Inr ''None''"
    by simp
  have c4: "parts_client (length ([] :: calls) + stage_index Evidence)
        (stage_request Evidence ''Collision'' ''Maruti Suzuki Baleno 2022''
           ''Rear-ended at a signal, bumper dented'' False)
       = Inr (ContentParts [''  - severity:'', [], '' Low ''] # [])"
    by (simp add: parts_client_def)
  with th [where client = parts_client and s = Evidence
             and c = "ContentParts [''  - severity:'', [], '' Low '']" and rest = "[]"]
  have r4: "stage_reply parts_client [] ''Collision'' ''Maruti Suzuki Baleno 2022''
        ''Rear-ended at a signal, bumper dented'' False Evidence = Inr ''- severity: Low''"
    using joined by simp
  \<comment> \<open>nothing of the whitespace is left at either end\<close>
  from th [where msg = padded_text and client = blank_client] blank
  have ends: "\<not> prefix '' '' (strip padded_text)" "\<not> suffix '' '' (strip padded_text)"
    by blast+
  from all result c2 r2 c3 r3 c4 r4 blank ends space words empty show ?thesis
    by (simp only: simp_thms)
qed

text \<open>
  The endpoint that answers every call with an empty text: the run returns a result, and its
  four text fields are empty.
\<close>

theorem run_claim_pipeline_groq_blank_counterexample:
  "fst (run_claim_pipeline_groq blank_client ''CLM-001'' ''Collision'' ''Web Portal''
          ''Maruti Suzuki Baleno 2022'' ''Rear-ended at a signal, bumper dented'' False [])
     = Inr \<lparr>pr_overview =
              \<lparr>ov_claim_id = ''CLM-001'', ov_claim_type = ''Collision'',
               ov_channel = ''Web Portal'', ov_car_model = ''Maruti Suzuki Baleno 2022'',
               ov_has_photos = False\<rparr>,
            pr_triage = [], pr_damage = [], pr_evidence = [], pr_settlement = []\<rparr>"
  by (simp add: run_claim_pipeline_groq_stages stage_reply_def blank_client_def
        message_text_def strip_Nil del: stage_request.simps)

text \<open>
  C9. When a run of the pipeline fails, the error that reaches the caller is the exception of
  the first failing stage itself, as the client raised it (or the \<open>IndexError\<close> of a
  response without choices): the stages before it returned a text, the stages after it were
  not called, and nothing is added to the error that tells the stage.
\<close>

theorem run_claim_pipeline_groq_error:
  "fst (run_claim_pipeline_groq client cid ct ch cm d hp log) = Inl e \<Longrightarrow>
   \<exists>s. stage_reply client log ct cm d hp s = Inl e
     \<and> (client (length log + stage_index s) (stage_request s ct cm d hp) = Inl e
        \<or> client (length log + stage_index s) (stage_request s ct cm d hp) = Inr []
          \<and> e = IndexError)
     \<and> (\<forall>s'. stage_index s' < stage_index s
             \<longrightarrow> (\<exists>t. stage_reply client log ct cm d hp s' = Inr t))
     \<and> snd (run_claim_pipeline_groq client cid ct ch cm d hp log)
         = log @ map (\<lambda>s. stage_request s ct cm d hp)
                   (take (Suc (stage_index s)) [Triage, Damage, Evidence, Settlement])"
proof -
  assume failed: "fst (run_claim_pipeline_groq client cid ct ch cm d hp log) = Inl e"
  have "\<exists>s. stage_reply client log ct cm d hp s = Inl e
     \<and> (\<forall>s'. stage_index s' < stage_index s
             \<longrightarrow> (\<exists>t. stage_reply client log ct cm d hp s' = Inr t))
     \<and> snd (run_claim_pipeline_groq client cid ct ch cm d hp log)
         = log @ map (\<lambda>s. stage_request s ct cm d hp)
                   (take (Suc (stage_index s)) [Triage, Damage, Evidence, Settlement])"
    using failed
    unfolding run_claim_pipeline_groq_stages stage_ex stage_cases
    by (simp split: sum.splits del: stage_request.simps)
  then show ?thesis
    using stage_reply_error by blast
qed

theorem run_claim_pipeline_groq_error_witness:
  "fst (run_claim_pipeline_groq second_call_fails ''CLM-001'' ''Collision'' ''Web Portal''
          ''Maruti Suzuki Baleno 2022'' ''Rear-ended at a signal, bumper dented'' False [])
     = Inl (GroqError ''connection error'')
   \<and> stage_reply second_call_fails [] ''Collision'' ''Maruti Suzuki Baleno 2022''
        ''Rear-ended at a signal, bumper dented'' False Triage
     = Inr ''- severity: Low''
   \<and> stage_reply second_call_fails [] ''Collision'' ''Maruti Suzuki Baleno 2022''
        ''Rear-ended at a signal, bumper dented'' False Damage
     = Inl (GroqError ''connection error'')
   \<and> snd (run_claim_pipeline_groq second_call_fails ''CLM-001'' ''Collision'' ''Web Portal''
          ''Maruti Suzuki Baleno 2022'' ''Rear-ended at a signal, bumper dented'' False [])
     = [stage_request Triage ''Collision'' ''Maruti Suzuki Baleno 2022''
          ''Rear-ended at a signal, bumper dented'' False,
        stage_request Damage ''Collision'' ''Maruti Suzuki Baleno 2022''
          ''Rear-ended at a signal, bumper dented'' False]"
proof -
  have replies:
    "stage_reply second_call_fails [] ''Collision'' ''Maruti Suzuki Baleno 2022''
        ''Rear-ended at a signal, bumper dented'' False s
     = (if s = Damage then Inl (GroqError ''connection error'') else Inr ''- severity: Low'')"
    for s
    by (cases s)
       (simp_all add: stage_reply_def second_call_fails_def message_text_def steady_text)
  have failed:
    "fst (run_claim_pipeline_groq second_call_fails ''CLM-001'' ''Collision'' ''Web Portal''
          ''Maruti Suzuki Baleno 2022'' ''Rear-ended at a signal, bumper dented'' False [])
     = Inl (GroqError ''connection error'')"
    by (simp add: run_claim_pipeline_groq_stages replies del: stage_request.simps)
  from run_claim_pipeline_groq_error [OF failed]
  obtain s where s:
    "stage_reply second_call_fails [] ''Collision'' ''Maruti Suzuki Baleno 2022''
        ''Rear-ended at a signal, bumper dented'' False s
       = Inl (GroqError ''connection error'')"
    "snd (run_claim_pipeline_groq second_call_fails ''CLM-001'' ''Collision'' ''Web Portal''
          ''Maruti Suzuki Baleno 2022'' ''Rear-ended at a signal, bumper dented'' False [])
       = [] @ map (\<lambda>s. stage_request s ''Collision'' ''Maruti Suzuki Baleno 2022''
                        ''Rear-ended at a signal, bumper dented'' False)
                (take (Suc (stage_index s)) [Triage, Damage, Evidence, Settlement])"
    by blast
  from s(1) have "s = Damage"
    by (simp add: replies split: if_splits)
  with s(2) have log:
    "snd (run_claim_pipeline_groq second_call_fails ''CLM-001'' ''Collision'' ''Web Portal''
          ''Maruti Suzuki Baleno 2022'' ''Rear-ended at a signal, bumper dented'' False [])
     = [stage_request Triage ''Collision'' ''Maruti Suzuki Baleno 2022''
          ''Rear-ended at a signal, bumper dented'' False,
        stage_request Damage ''Collision'' ''Maruti Suzuki Baleno 2022''
          ''Rear-ended at a signal, bumper dented'' False]"
    by (simp del: stage_request.simps)
  from failed replies [of Triage] replies [of Damage] log show ?thesis
    by (simp del: stage_request.simps)
qed

text \<open>
  Two runs that fail at different stages, the first at the triage call and the second at the
  damage call, surface the same error.
\<close>

theorem run_claim_pipeline_groq_error_counterexample:
  "fst (run_claim_pipeline_groq first_call_fails ''CLM-001'' ''Collision'' ''Web Portal''
          ''Maruti Suzuki Baleno 2022'' ''Rear-ended at a signal, bumper dented'' False [])
     = Inl (GroqError ''connection error'')
   \<and> fst (run_claim_pipeline_groq second_call_fails ''CLM-001'' ''Collision'' ''Web Portal''
          ''Maruti Suzuki Baleno 2022'' ''Rear-ended at a signal, bumper dented'' False [])
     = Inl (GroqError ''connection error'')
   \<and> stage_reply first_call_fails [] ''Collision'' ''Maruti Suzuki Baleno 2022''
        ''Rear-ended at a signal, bumper dented'' False Triage
     = Inl (GroqError ''connection error'')
   \<and> stage_reply second_call_fails [] ''Collision'' ''Maruti Suzuki Baleno 2022''
        ''Rear-ended at a signal, bumper dented'' False Triage
     = Inr ''- severity: Low''
   \<and> stage_reply second_call_fails [] ''Collision'' ''Maruti Suzuki Baleno 2022''
        ''Rear-ended at a signal, bumper dented'' False Damage
     = Inl (GroqError ''connection error'')
   \<and> length (snd (run_claim_pipeline_groq first_call_fails ''CLM-001'' ''Collision''
        ''Web Portal'' ''Maruti Suzuki Baleno 2022'' ''Rear-ended at a signal, bumper dented''
        False [])) = 1
   \<and> length (snd (run_claim_pipeline_groq second_call_fails ''CLM-001'' ''Collision''
        ''Web Portal'' ''Maruti Suzuki Baleno 2022'' ''Rear-ended at a signal, bumper dented''
        False [])) = 2"
  by (simp add: run_claim_pipeline_groq_stages stage_reply_def first_call_fails_def
        second_call_fails_def message_text_def steady_text del: stage_request.simps)

section \<open>Submitting a claim\<close>

text \<open>
  C2. If any one of the four agent calls of a submission fails, the run of the pipeline fails
  and returns no result, and \<open>main\<close> leaves the session state as it was: no record is created
  and the store of claim records is unchanged. When the form passed the check of its fields
  the exception leaves \<open>main\<close>.
\<close>

theorem failed_pipeline_leaves_store:
  "\<exists>s e. stage_reply client log (f_claim_type fm) (f_car_model fm) (f_description fm)
            (f_photo fm \<noteq> None) s = Inl e \<Longrightarrow>
     (\<exists>e. fst (run_claim_pipeline_groq client (f_claim_id fm) (f_claim_type fm) (f_channel fm)
                  (f_car_model fm) (f_description fm) (f_photo fm \<noteq> None) log) = Inl e)
   \<and> fst (snd (main_submitted client now fm st log)) = st
   \<and> (strip (f_description fm) \<noteq> [] \<and> strip (f_customer_name fm) \<noteq> []
        \<longrightarrow> (\<exists>e. fst (main_submitted client now fm st log) = Inl e))"
proof -
  assume "\<exists>s e. stage_reply client log (f_claim_type fm) (f_car_model fm) (f_description fm)
            (f_photo fm \<noteq> None) s = Inl e"
  then have "\<exists>e. fst (run_claim_pipeline_groq client (f_claim_id fm) (f_claim_type fm)
                  (f_channel fm) (f_car_model fm) (f_description fm) (f_photo fm \<noteq> None) log)
               = Inl e"
    unfolding run_claim_pipeline_groq_stages stage_ex
    by (auto split: sum.splits)
  then obtain e where failed:
    "fst (run_claim_pipeline_groq client (f_claim_id fm) (f_claim_type fm)
            (f_channel fm) (f_car_model fm) (f_description fm) (f_photo fm \<noteq> None) log)
       = Inl e"
    by blast
  then have run: "run_claim_pipeline_groq client (f_claim_id fm) (f_claim_type fm)
            (f_channel fm) (f_car_model fm) (f_description fm) (f_photo fm \<noteq> None) log
       = (Inl e, snd (run_claim_pipeline_groq client (f_claim_id fm) (f_claim_type fm)
            (f_channel fm) (f_car_model fm) (f_description fm) (f_photo fm \<noteq> None) log))"
    by (metis prod.collapse)
  have "fst (snd (main_submitted client now fm st log)) = st"
    unfolding main_submitted_def Let_def by (subst run) simp
  moreover have "fst (main_submitted client now fm st log) = Inl e"
    if "strip (f_description fm) \<noteq> [] \<and> strip (f_customer_name fm) \<noteq> []"
    using that unfolding main_submitted_def Let_def by (subst run) simp
  ultimately show ?thesis
    using failed by blast
qed

theorem failed_pipeline_leaves_store_witness:
  "(\<exists>s e. stage_reply second_call_fails [] (f_claim_type example_form)
             (f_car_model example_form) (f_description example_form)
             (f_photo example_form \<noteq> None) s = Inl e)
   \<and> strip (f_description example_form) \<noteq> []
   \<and> strip (f_customer_name example_form) \<noteq> []
   \<and> (\<exists>e. fst (run_claim_pipeline_groq second_call_fails (f_claim_id example_form)
                 (f_claim_type example_form) (f_channel example_form)
                 (f_car_model example_form) (f_description example_form)
                 (f_photo example_form \<noteq> None) []) = Inl e)
   \<and> fst (snd (main_submitted second_call_fails 50 example_form example_session []))
       = example_session
   \<and> (\<exists>e. fst (main_submitted second_call_fails 50 example_form example_session []) = Inl e)"
proof -
  have "stage_reply second_call_fails [] (f_claim_type example_form)
             (f_car_model example_form) (f_description example_form)
             (f_photo example_form \<noteq> None) Damage = Inl (GroqError ''connection error'')"
    by (simp add: stage_reply_def second_call_fails_def)
  then have hyp: "\<exists>s e. stage_reply second_call_fails [] (f_claim_type example_form)
             (f_car_model example_form) (f_description example_form)
             (f_photo example_form \<noteq> None) s = Inl e"
    by blast
  have filled: "strip (f_description example_form) \<noteq> []"
    "strip (f_customer_name example_form) \<noteq> []"
    unfolding example_form_def by code_simp+
  from failed_pipeline_leaves_store [OF hyp, of 50 example_session] hyp filled
  show ?thesis
    by blast
qed

text \<open>
  The check of the form is on the stripped fields: a name or a description of whitespace
  characters only, such as one ideographic space, is rejected as an empty one is.
\<close>

lemma blank_submission_rejected:
  "strip (f_description fm) = [] \<or> strip (f_customer_name fm) = [] \<Longrightarrow>
   main_submitted client now fm st log =
     (Inr (StError ''Please fill at least customer name and description.''), st, log)"
  by (simp add: main_submitted_def)

lemma ideographic_space_rejected:
  "main_submitted steady_client 50
     (example_form\<lparr>f_description := [CHR 0xE3, CHR 0x80, CHR 0x80]\<rparr>) example_session []
   = (Inr (StError ''Please fill at least customer name and description.''),
      example_session, [])"
proof -
  have "strip [CHR 0xE3, CHR 0x80, CHR 0x80] = []"
    by code_simp
  then show ?thesis
    by (intro blank_submission_rejected) simp
qed

text \<open>
  C4. A submission whose customer name or description is empty is rejected with the error
  message of the form before any call of the model: no request is sent (the log of requests
  is unchanged) and the session state, with every claim record, is unchanged.
\<close>

theorem empty_submission_rejected:
  "f_customer_name fm = [] \<or> f_description fm = [] \<Longrightarrow>
   main_submitted client now fm st log =
     (Inr (StError ''Please fill at least customer name and description.''), st, log)"
  by (auto simp: main_submitted_def strip_Nil)

theorem empty_submission_rejected_witness:
  "(f_customer_name (example_form\<lparr>f_customer_name := []\<rparr>) = []
      \<or> f_description (example_form\<lparr>f_customer_name := []\<rparr>) = [])
   \<and> main_submitted steady_client 50 (example_form\<lparr>f_customer_name := []\<rparr>)
        example_session []
       = (Inr (StError ''Please fill at least customer name and description.''),
          example_session, [])"
proof -
  have hyp: "f_customer_name (example_form\<lparr>f_customer_name := []\<rparr>) = []
      \<or> f_description (example_form\<lparr>f_customer_name := []\<rparr>) = []"
    by simp
  from empty_submission_rejected [OF hyp] hyp show ?thesis
    by blast
qed

section \<open>Listing by recency\<close>

lemma get_sorted_claims_descending:
  "sorted (rev (map c_created_idx (get_sorted_claims st)))"
  by (simp add: get_sorted_claims_def rev_map [symmetric])

lemma get_sorted_claims_mset:
  "mset (get_sorted_claims st) = mset (map snd (claims_db st))"
  by (simp add: get_sorted_claims_def)

text \<open>
  C6. \<open>get_sorted_claims\<close> returns the stored records by creation index, highest first:
  its result is a rearrangement of the stored records in descending order of
  \<open>created_idx\<close>. In a new session, after records with different ids were created in the
  order A, B, C it returns C, B, A (the records as created, newest first); after B was
  deleted it returns C, A; and a record D created after that comes first: D, C, A.
\<close>

theorem get_sorted_claims_recency:
  "sorted (rev (map c_created_idx (get_sorted_claims st)))
   \<and> mset (get_sorted_claims st) = mset (map snd (claims_db st))
   \<and> (distinct [a_claim_id a, a_claim_id b, a_claim_id c]
        \<and> a_claim_id d \<notin> {a_claim_id a, a_claim_id c} \<longrightarrow>
       get_sorted_claims (run_ops [Create a, Create b, Create c] (init_state None))
         = rev (created [Create a, Create b, Create c] (init_state None))
     \<and> map (\<lambda>r. (c_id r, c_created_idx r))
          (get_sorted_claims (run_ops [Create a, Create b, Create c] (init_state None)))
         = [(a_claim_id c, 3), (a_claim_id b, 2), (a_claim_id a, 1)]
     \<and> get_sorted_claims
          (run_ops [Create a, Create b, Create c, Delete (a_claim_id b)] (init_state None))
         = filter (\<lambda>r. c_id r \<noteq> a_claim_id b)
             (get_sorted_claims (run_ops [Create a, Create b, Create c] (init_state None)))
     \<and> map (\<lambda>r. (c_id r, c_created_idx r))
          (get_sorted_claims
             (run_ops [Create a, Create b, Create c, Delete (a_claim_id b)] (init_state None)))
         = [(a_claim_id c, 3), (a_claim_id a, 1)]
     \<and> get_sorted_claims
          (run_ops [Create a, Create b, Create c, Delete (a_claim_id b), Create d]
             (init_state None))
         = last (created [Create a, Create b, Create c, Delete (a_claim_id b), Create d]
                   (init_state None))
           # get_sorted_claims
               (run_ops [Create a, Create b, Create c, Delete (a_claim_id b)] (init_state None))
     \<and> map (\<lambda>r. (c_id r, c_created_idx r))
          (get_sorted_claims
             (run_ops [Create a, Create b, Create c, Delete (a_claim_id b), Create d]
                (init_state None)))
         = [(a_claim_id d, 4), (a_claim_id c, 3), (a_claim_id a, 1)])"
proof (intro conjI impI)
  show "sorted (rev (map c_created_idx (get_sorted_claims st)))"
    by (rule get_sorted_claims_descending)
  show "mset (get_sorted_claims st) = mset (map snd (claims_db st))"
    by (rule get_sorted_claims_mset)
next
  assume "distinct [a_claim_id a, a_claim_id b, a_claim_id c]
          \<and> a_claim_id d \<notin> {a_claim_id a, a_claim_id c}"
  then have ids: "a_claim_id a \<noteq> a_claim_id b" "a_claim_id a \<noteq> a_claim_id c"
      "a_claim_id b \<noteq> a_claim_id c" "a_claim_id d \<noteq> a_claim_id a"
      "a_claim_id d \<noteq> a_claim_id c"
    by auto
  note ev = created_Create save_claim_record_fields init_state_def render_history_delete_def
    get_sorted_claims_def
  from ids show "get_sorted_claims (run_ops [Create a, Create b, Create c] (init_state None))
         = rev (created [Create a, Create b, Create c] (init_state None))"
    by (simp add: ev del: created.simps(2))
  from ids show "map (\<lambda>r. (c_id r, c_created_idx r))
          (get_sorted_claims (run_ops [Create a, Create b, Create c] (init_state None)))
         = [(a_claim_id c, 3), (a_claim_id b, 2), (a_claim_id a, 1)]"
    by (simp add: ev del: created.simps(2))
  from ids show "get_sorted_claims
          (run_ops [Create a, Create b, Create c, Delete (a_claim_id b)] (init_state None))
         = filter (\<lambda>r. c_id r \<noteq> a_claim_id b)
             (get_sorted_claims (run_ops [Create a, Create b, Create c] (init_state None)))"
    by (simp add: ev del: created.simps(2))
  from ids show "map (\<lambda>r. (c_id r, c_created_idx r))
          (get_sorted_claims
             (run_ops [Create a, Create b, Create c, Delete (a_claim_id b)] (init_state None)))
         = [(a_claim_id c, 3), (a_claim_id a, 1)]"
    by (simp add: ev del: created.simps(2))
  from ids show "get_sorted_claims
          (run_ops [Create a, Create b, Create c, Delete (a_claim_id b), Create d]
             (init_state None))
         = last (created [Create a, Create b, Create c, Delete (a_claim_id b), Create d]
                   (init_state None))
           # get_sorted_claims
               (run_ops [Create a, Create b, Create c, Delete (a_claim_id b)] (init_state None))"
    by (simp add: ev del: created.simps(2))
  from ids show "map (\<lambda>r. (c_id r, c_created_idx r))
          (get_sorted_claims
             (run_ops [Create a, Create b, Create c, Delete (a_claim_id b), Create d]
                (init_state None)))
         = [(a_claim_id d, 4), (a_claim_id c, 3), (a_claim_id a, 1)]"
    by (simp add: ev del: created.simps(2))
qed

theorem get_sorted_claims_recency_witness:
  "distinct [a_claim_id (example_args ''A'' ''Low'' 10), a_claim_id (example_args ''B'' ''Low'' 20),
             a_claim_id (example_args ''C'' ''Low'' 30)]
   \<and> a_claim_id (example_args ''D'' ''Low'' 40)
       \<notin> {a_claim_id (example_args ''A'' ''Low'' 10), a_claim_id (example_args ''C'' ''Low'' 30)}
   \<and> map (\<lambda>r. (c_id r, c_created_idx r))
        (get_sorted_claims
           (run_ops [Create (example_args ''A'' ''Low'' 10), Create (example_args ''B'' ''Low'' 20),
                     Create (example_args ''C'' ''Low'' 30)] (init_state None)))
       = [(''C'', 3), (''B'', 2), (''A'', 1)]
   \<and> map (\<lambda>r. (c_id r, c_created_idx r))
        (get_sorted_claims
           (run_ops [Create (example_args ''A'' ''Low'' 10), Create (example_args ''B'' ''Low'' 20),
                     Create (example_args ''C'' ''Low'' 30), Delete ''B''] (init_state None)))
       = [(''C'', 3), (''A'', 1)]
   \<and> map (\<lambda>r. (c_id r, c_created_idx r))
        (get_sorted_claims
           (run_ops [Create (example_args ''A'' ''Low'' 10), Create (example_args ''B'' ''Low'' 20),
                     Create (example_args ''C'' ''Low'' 30), Delete ''B'',
                     Create (example_args ''D'' ''Low'' 40)] (init_state None)))
       = [(''D'', 4), (''C'', 3), (''A'', 1)]"
proof -
  have ids: "a_claim_id (example_args ''A'' ''Low'' 10) = ''A''"
    "a_claim_id (example_args ''B'' ''Low'' 20) = ''B''"
    "a_claim_id (example_args ''C'' ''Low'' 30) = ''C''"
    "a_claim_id (example_args ''D'' ''Low'' 40) = ''D''"
    by (simp_all add: example_args_def)
  have hyp: "distinct [a_claim_id (example_args ''A'' ''Low'' 10),
                       a_claim_id (example_args ''B'' ''Low'' 20),
                       a_claim_id (example_args ''C'' ''Low'' 30)]
             \<and> a_claim_id (example_args ''D'' ''Low'' 40)
                 \<notin> {a_claim_id (example_args ''A'' ''Low'' 10),
                     a_claim_id (example_args ''C'' ''Low'' 30)}"
    by (simp add: ids)
  from get_sorted_claims_recency
         [of st "example_args ''A'' ''Low'' 10" "example_args ''B'' ''Low'' 20"
             "example_args ''C'' ''Low'' 30" "example_args ''D'' ''Low'' 40" for st]
       hyp
  show ?thesis
    unfolding ids by blast
qed

section \<open>Creating under an id that is taken\<close>

lemma run_ops_append: "run_ops (xs @ ys) st = run_ops ys (run_ops xs st)"
  by (induction xs arbitrary: st) simp_all

lemma distinct_keys_apply_op:
  assumes "distinct (map fst (claims_db st))"
  shows "distinct (map fst (claims_db (apply_op x st)))"
proof (cases x)
  case (Create a)
  with assms show ?thesis by (simp add: save_claim_record_fields distinct_update)
next
  case (Delete cid)
  with assms show ?thesis by (simp add: render_history_delete_def distinct_delete)
next
  case (Open cid)
  with assms show ?thesis by (simp add: render_history_open_def)
next
  case (Press b)
  with assms show ?thesis
    by (cases b)
       (auto simp: render_claim_intelligence_def set_claim_status_def distinct_update
             split: option.splits if_splits)
qed

lemma distinct_keys_run_ops:
  "distinct (map fst (claims_db st)) \<Longrightarrow> distinct (map fst (claims_db (run_ops ops st)))"
  by (induction ops arbitrary: st) (simp_all add: distinct_keys_apply_op)

lemma one_entry_per_key:
  "distinct (map fst al) \<Longrightarrow> k \<in> fst ` set al \<Longrightarrow> length (filter (\<lambda>p. fst p = k) al) = 1"
proof (induction al)
  case Nil
  then show ?case by simp
next
  case (Cons p al)
  show ?case
  proof (cases "fst p = k")
    case True
    with Cons.prems have "k \<notin> fst ` set al"
      by simp
    then have "\<forall>q \<in> set al. fst q \<noteq> k"
      by (metis image_eqI)
    then have "filter (\<lambda>p. fst p = k) al = []"
      by (simp add: filter_empty_conv)
    with True show ?thesis by simp
  next
    case False
    with Cons show ?thesis by auto
  qed
qed

text \<open>
  C7. \<open>save_claim_record\<close> on a claim id that is already in the store does not raise (it
  has no failing path: it returns the new session state for every input) and replaces the
  record under that id. After two creates with the same id, with any operations between
  them, the store holds exactly one record under the id, and it has the content of the
  second create.
\<close>

theorem save_claim_record_overwrites:
  "distinct (map fst (claims_db st)) \<Longrightarrow> a_claim_id b = a_claim_id a \<Longrightarrow>
   length (filter (\<lambda>p. fst p = a_claim_id a)
             (claims_db (run_ops (Create a # ops @ [Create b]) st))) = 1
   \<and> map_of (claims_db (run_ops (Create a # ops @ [Create b]) st)) (a_claim_id a) =
       Some \<lparr>c_id = a_claim_id a, c_customer_name = a_customer_name b,
             c_customer_contact = a_customer_contact b, c_type = a_claim_type b,
             c_channel = a_channel b, c_car_model = a_car_model b,
             c_description = a_description b, c_status = a_status b,
             c_priority = extract_priority_label (pr_triage (a_pipeline_result b)),
             c_triage = pr_triage (a_pipeline_result b),
             c_damage = pr_damage (a_pipeline_result b),
             c_evidence = pr_evidence (a_pipeline_result b),
             c_settlement = pr_settlement (a_pipeline_result b),
             c_overview = pr_overview (a_pipeline_result b), c_created_at = a_now b,
             c_created_idx = next_idx (run_ops (Create a # ops @ [Create b]) st)\<rparr>"
proof -
  assume keys: "distinct (map fst (claims_db st))" and same: "a_claim_id b = a_claim_id a"
  define st1 where "st1 = run_ops (Create a # ops) st"
  have run: "run_ops (Create a # ops @ [Create b]) st = apply_op (Create b) st1"
    using run_ops_append [of "Create a # ops" "[Create b]" st] by (simp add: st1_def)
  from keys have "distinct (map fst (claims_db (apply_op (Create b) st1)))"
    unfolding run [symmetric] by (rule distinct_keys_run_ops)
  moreover have "a_claim_id a \<in> fst ` set (claims_db (apply_op (Create b) st1))"
    by (simp add: save_claim_record_fields same dom_update)
  ultimately have "length (filter (\<lambda>p. fst p = a_claim_id a)
                             (claims_db (apply_op (Create b) st1))) = 1"
    by (rule one_entry_per_key)
  then show ?thesis
    unfolding run by (simp add: save_claim_record_fields same update_conv')
qed

theorem save_claim_record_overwrites_witness:
  "distinct (map fst (claims_db (init_state None)))
   \<and> a_claim_id (example_args ''CLM-001'' ''High severity'' 20)
       = a_claim_id (example_args ''CLM-001'' ''Low'' 10)
   \<and> length (filter (\<lambda>p. fst p = ''CLM-001'')
        (claims_db (run_ops [Create (example_args ''CLM-001'' ''Low'' 10),
                             Create (example_args ''CLM-001'' ''High severity'' 20)]
                      (init_state None)))) = 1
   \<and> map_option (\<lambda>r. (c_triage r, c_created_at r, c_created_idx r))
        (map_of (claims_db (run_ops [Create (example_args ''CLM-001'' ''Low'' 10),
                                     Create (example_args ''CLM-001'' ''High severity'' 20)]
                              (init_state None))) ''CLM-001'')
       = Some (''High severity'', 20, 2)"
proof -
  have keys: "distinct (map fst (claims_db (init_state None)))"
    by (simp add: init_state_def)
  have same: "a_claim_id (example_args ''CLM-001'' ''High severity'' 20)
               = a_claim_id (example_args ''CLM-001'' ''Low'' 10)"
    and id: "a_claim_id (example_args ''CLM-001'' ''Low'' 10) = ''CLM-001''"
    and content: "pr_triage (a_pipeline_result (example_args ''CLM-001'' ''High severity'' 20))
                    = ''High severity''"
      "a_now (example_args ''CLM-001'' ''High severity'' 20) = 20"
    by (simp_all add: example_args_def)
  note th = save_claim_record_overwrites [OF keys same, of "[]", unfolded append_Nil id]
  have ev: "map_option (\<lambda>r. (c_triage r, c_created_at r, c_created_idx r))
        (map_of (claims_db (run_ops [Create (example_args ''CLM-001'' ''Low'' 10),
                                     Create (example_args ''CLM-001'' ''High severity'' 20)]
                              (init_state None))) ''CLM-001'')
       = Some (''High severity'', 20, 2)"
    by (simp add: save_claim_record_fields init_state_def example_args_def)
  from th [THEN conjunct1] keys same ev show ?thesis
    by (simp only: simp_thms)
qed

section \<open>Changing the status\<close>




section \<open>An overwritten claim is the most recent\<close>

lemma sorted_le_last:
  "sorted (map f ys) \<Longrightarrow> x \<in> set ys \<Longrightarrow> f x \<le> f (last ys)"
  by (induction ys) (auto split: if_splits)

lemma last_sort_key_max:
  fixes f :: "'a \<Rightarrow> int"
  assumes "r \<in> set xs" and "\<forall>x \<in> set xs. x \<noteq> r \<longrightarrow> f x < f r"
  shows "last (sort_key f xs) = r"
proof (rule ccontr)
  assume neq: "last (sort_key f xs) \<noteq> r"
  from assms(1) have ne: "sort_key f xs \<noteq> []"
    by (metis empty_iff empty_set set_sort)
  then have "last (sort_key f xs) \<in> set xs"
    using last_in_set [OF ne] by simp
  with assms(2) neq have "f (last (sort_key f xs)) < f r"
    by blast
  moreover have "f r \<le> f (last (sort_key f xs))"
    using assms(1) by (intro sorted_le_last) simp_all
  ultimately show False by simp
qed

lemma take1_rev: "ys \<noteq> [] \<Longrightarrow> take 1 (rev ys) = [last ys]"
  by (cases ys rule: rev_cases) simp_all

text \<open>
  C10. Creating a record under a claim id that is already in the store gives the new record
  a new creation index, the counter plus one, which is strictly above the index of the
  record it replaces, and the time of this creation; the keys of the store are unchanged,
  and the new record is the first of \<open>get_sorted_claims\<close>.
\<close>

theorem overwrite_moves_to_front:
  "store_ok st \<Longrightarrow> map_of (claims_db st) (a_claim_id a) = Some old \<Longrightarrow>
   st' = apply_op (Create a) st \<Longrightarrow>
     (\<exists>new. map_of (claims_db st') (a_claim_id a) = Some new
        \<and> c_created_idx new = next_idx st + 1
        \<and> c_created_idx old < c_created_idx new
        \<and> c_created_at new = a_now a
        \<and> take 1 (get_sorted_claims st') = [new])
   \<and> map fst (claims_db st') = map fst (claims_db st)"
proof -
  assume ok: "store_ok st" and old: "map_of (claims_db st) (a_claim_id a) = Some old"
    and st': "st' = apply_op (Create a) st"
  let ?new = "\<lparr>c_id = a_claim_id a, c_customer_name = a_customer_name a,
      c_customer_contact = a_customer_contact a, c_type = a_claim_type a,
      c_channel = a_channel a, c_car_model = a_car_model a, c_description = a_description a,
      c_status = a_status a,
      c_priority = extract_priority_label (pr_triage (a_pipeline_result a)),
      c_triage = pr_triage (a_pipeline_result a), c_damage = pr_damage (a_pipeline_result a),
      c_evidence = pr_evidence (a_pipeline_result a),
      c_settlement = pr_settlement (a_pipeline_result a),
      c_overview = pr_overview (a_pipeline_result a), c_created_at = a_now a,
      c_created_idx = next_idx st + 1\<rparr>"
  have db: "claims_db st' = AList.update (a_claim_id a) ?new (claims_db st)"
    by (simp add: st' save_claim_record_fields)
  from ok have le: "\<forall>p \<in> set (claims_db st). c_created_idx (snd p) \<le> next_idx st"
    by (simp add: store_ok_iff)
  from old have "(a_claim_id a, old) \<in> set (claims_db st)"
    by (rule map_of_SomeD)
  with le have old_lt: "c_created_idx old < c_created_idx ?new"
    by fastforce
  let ?xs = "rev (map snd (claims_db st'))"
  have mem: "?new \<in> set ?xs"
    using update_mem [of "a_claim_id a" ?new "claims_db st"] by (force simp: db)
  have "c_created_idx x < c_created_idx ?new" if "x \<in> set ?xs" and "x \<noteq> ?new" for x
  proof -
    from that obtain k where "(k, x) \<in> set (AList.update (a_claim_id a) ?new (claims_db st))"
      by (auto simp: db)
    with that(2) have "(k, x) \<in> set (claims_db st)"
      using set_update_subset [of "a_claim_id a" ?new "claims_db st"] by auto
    with le show ?thesis by fastforce
  qed
  with mem have "last (sort_key c_created_idx ?xs) = ?new"
    by (intro last_sort_key_max) blast+
  moreover from mem have "sort_key c_created_idx ?xs \<noteq> []"
    by (metis empty_iff empty_set set_sort)
  then have "take 1 (rev (sort_key c_created_idx ?xs)) = [last (sort_key c_created_idx ?xs)]"
    by (rule take1_rev)
  ultimately have front: "take 1 (get_sorted_claims st') = [?new]"
    unfolding get_sorted_claims_def by simp
  have "map_of (claims_db st') (a_claim_id a) = Some ?new"
    by (simp add: db update_conv')
  with old_lt front have "\<exists>new. map_of (claims_db st') (a_claim_id a) = Some new
        \<and> c_created_idx new = next_idx st + 1
        \<and> c_created_idx old < c_created_idx new
        \<and> c_created_at new = a_now a
        \<and> take 1 (get_sorted_claims st') = [new]"
    by simp
  moreover have "map fst (claims_db st') = map fst (claims_db st)"
    using old by (simp add: db update_present_keys)
  ultimately show ?thesis by blast
qed

theorem overwrite_moves_to_front_witness:
  "store_ok example_session
   \<and> map_of (claims_db example_session) (a_claim_id (example_args ''CLM-001'' ''Low'' 30))
       = Some (the (map_of (claims_db example_session) ''CLM-001''))
   \<and> map (\<lambda>r. (c_id r, c_created_idx r)) (get_sorted_claims example_session)
       = [(''CLM-002'', 2), (''CLM-001'', 1)]
   \<and> map (\<lambda>r. (c_id r, c_created_idx r, c_created_at r))
        (take 1 (get_sorted_claims
                   (apply_op (Create (example_args ''CLM-001'' ''Low'' 30)) example_session)))
       = [(''CLM-001'', 3, 30)]"
proof -
  have ok: "store_ok example_session"
    unfolding example_session_def
    by (intro store_ok_run_ops) (simp add: store_ok_def init_state_def)
  have id: "a_claim_id (example_args ''CLM-001'' ''Low'' 30) = ''CLM-001''"
    by (simp add: example_args_def)
  have "map_of (claims_db example_session) ''CLM-001'' \<noteq> None"
    by (simp add: example_session_def example_args_def save_claim_record_fields
          init_state_def render_history_open_def)
  then have old: "map_of (claims_db example_session)
                    (a_claim_id (example_args ''CLM-001'' ''Low'' 30))
       = Some (the (map_of (claims_db example_session) ''CLM-001''))"
    unfolding id by auto
  have before: "map (\<lambda>r. (c_id r, c_created_idx r)) (get_sorted_claims example_session)
       = [(''CLM-002'', 2), (''CLM-001'', 1)]"
    by (simp add: example_session_def example_args_def save_claim_record_fields
          init_state_def render_history_open_def get_sorted_claims_def)
  have nxt: "next_idx example_session = 2"
    by (simp add: example_session_def save_claim_record_fields init_state_def
          render_history_open_def)
  from overwrite_moves_to_front [OF ok old refl]
  obtain new where new:
      "map_of (claims_db (apply_op (Create (example_args ''CLM-001'' ''Low'' 30)) example_session))
         (a_claim_id (example_args ''CLM-001'' ''Low'' 30)) = Some new"
      "c_created_idx new = next_idx example_session + 1"
      "c_created_at new = a_now (example_args ''CLM-001'' ''Low'' 30)"
      "take 1 (get_sorted_claims
                 (apply_op (Create (example_args ''CLM-001'' ''Low'' 30)) example_session))
         = [new]"
    by blast
  from new(1) have "c_id new = ''CLM-001''"
    by (auto simp: save_claim_record_fields update_conv' example_args_def)
  with new(2,3,4) nxt
  have after: "map (\<lambda>r. (c_id r, c_created_idx r, c_created_at r))
        (take 1 (get_sorted_claims
                   (apply_op (Create (example_args ''CLM-001'' ''Low'' 30)) example_session)))
       = [(''CLM-001'', 3, 30)]"
    by (simp add: example_args_def)
  from ok old before after show ?thesis
    by (simp only: simp_thms)
qed

end
